theory Spec2Isabelle
  imports Complex_Main
begin

section \<open>Data model (backend/server.py, lines 52-72)\<close>

text \<open>
  A highlight is the dictionary built in \<open>TrackFinder.analyze_audio\<close> with the keys
  \<open>start\<close>, \<open>end\<close>, \<open>peak_time\<close> and \<open>intensity\<close> (the key \<open>end\<close> is written
  \<open>end_s\<close>). Python floats are modelled as exact reals throughout: rounding of
  floating-point arithmetic is not represented.
\<close>

record highlight =
  start :: real
  end_s :: real
  peak_time :: real
  intensity :: real

text \<open>
  \<open>class Track(BaseModel)\<close>. The field \<open>id\<close> is written \<open>track_id\<close>; \<open>created_at\<close>
  plays no role in analysis or assembly and is left out.
\<close>

record track =
  track_id :: string
  title :: string
  artist :: "string option"
  genre :: string
  source_url :: string
  local_path :: "string option"
  duration :: "real option"
  waveform_data :: "real list option"
  highlights :: "highlight list option"

datatype status = Pending | Processing | Completed | Failed

text \<open>\<open>class Mix(BaseModel)\<close>, its fields prefixed where a track has the same name.\<close>

record mix =
  mix_id :: string
  mix_title :: string
  mix_genre :: string
  mix_tracks :: "string list"
  mix_duration :: "real option"
  file_path :: "string option"
  status :: status

section \<open>Audio analysis (TrackFinder.analyze_audio, lines 160-207)\<close>

definition hop_length :: nat where
  "hop_length = 1024"

definition frame_length :: nat where
  "frame_length = 2048"

subsection \<open>Library calls used by the analysis\<close>

text \<open>
  \<open>librosa.feature.rms(y=y, frame_length=2048, hop_length=1024)\<close> with the library's
  defaults (\<open>center=True\<close>, zero padding): the signal is padded with
  \<open>frame_length // 2\<close> zeros on both sides, cut into frames of \<open>frame_length\<close> samples
  every \<open>hop_length\<close> samples, and each frame yields the square root of the mean of its
  squared samples.
\<close>

definition padded_signal :: "real list \<Rightarrow> real list" where
  "padded_signal y =
     replicate (frame_length div 2) 0 @ y @ replicate (frame_length div 2) 0"

definition n_frames :: "real list \<Rightarrow> nat" where
  "n_frames y = 1 + (length (padded_signal y) - frame_length) div hop_length"

definition frame_at :: "real list \<Rightarrow> nat \<Rightarrow> real list" where
  "frame_at y t = take frame_length (drop (t * hop_length) (padded_signal y))"

definition frame_rms :: "real list \<Rightarrow> real" where
  "frame_rms fr = sqrt ((\<Sum>v\<leftarrow>fr. \<bar>v\<bar> ^ 2) / real (length fr))"

definition librosa_rms :: "real list \<Rightarrow> real list" where
  "librosa_rms y = map (\<lambda>t. frame_rms (frame_at y t)) [0..<n_frames y]"

text \<open>\<open>np.max\<close> raises \<open>ValueError\<close> on an empty array (\<open>None\<close>).\<close>

fun np_max :: "real list \<Rightarrow> real option" where
  "np_max [] = None"
| "np_max (x # xs) = Some (fold max xs x)"

text \<open>\<open>np.mean\<close> of a non-empty array.\<close>

definition np_mean :: "real list \<Rightarrow> real" where
  "np_mean xs = sum_list xs / real (length xs)"

text \<open>
  \<open>np.convolve(a, v, mode='same')\<close>: the full discrete convolution has
  \<open>len(a) + len(v) - 1\<close> entries; mode \<open>same\<close> returns the centred part of length
  \<open>max(len(a), len(v))\<close>, which starts at index \<open>(min(len(a), len(v)) - 1) // 2\<close> of the
  full result.
\<close>

definition np_convolve_full :: "real list \<Rightarrow> real list \<Rightarrow> real list" where
  "np_convolve_full a v =
     map (\<lambda>k. \<Sum>j\<leftarrow>[0..<length a].
                 if j \<le> k \<and> k - j < length v then a ! j * v ! (k - j) else 0)
         [0..<length a + length v - 1]"

definition np_convolve_same :: "real list \<Rightarrow> real list \<Rightarrow> real list" where
  "np_convolve_same a v =
     take (max (length a) (length v))
          (drop ((min (length a) (length v) - 1) div 2) (np_convolve_full a v))"

text \<open>
  \<open>scipy.signal.find_peaks(x, height=h, distance=d)\<close>. First all local maxima are
  collected: a sample strictly above its left neighbour, followed by a (possibly
  one-sample) plateau and then a strictly smaller sample; the reported index is the
  middle of the plateau, rounded down. The first and the last sample are never maxima.
\<close>

function look_ahead :: "real list \<Rightarrow> nat \<Rightarrow> nat \<Rightarrow> nat" where
  "look_ahead x i i_ahead =
     (if i_ahead + 1 < length x \<and> x ! i_ahead = x ! i
      then look_ahead x i (i_ahead + 1) else i_ahead)"
  by pat_completeness auto
termination
  by (relation "measure (\<lambda>(x, i, i_ahead). length x - i_ahead)") auto

declare look_ahead.simps [simp del]

function local_maxima_from :: "real list \<Rightarrow> nat \<Rightarrow> nat list" where
  "local_maxima_from x i =
     (if i + 1 < length x then
        (if x ! (i - 1) < x ! i then
           (let i_ahead = look_ahead x i (i + 1) in
            if x ! i_ahead < x ! i
            then ((i + (i_ahead - 1)) div 2) # local_maxima_from x (i_ahead + 1)
            else local_maxima_from x (i + 1))
         else local_maxima_from x (i + 1))
      else [])"
  by pat_completeness auto
termination
proof (relation "measure (\<lambda>(x, i). length x - i)")
  show "wf (measure (\<lambda>(x, i). length x - i))" by simp
next
  fix x :: "real list" and i i_ahead :: nat
  assume a: "i + 1 < length x" and b: "i_ahead = look_ahead x i (i + 1)"
  have ge: "k \<le> look_ahead y j k" for y j k
  proof (induction y j k rule: look_ahead.induct)
    case (1 y j k)
    show ?case
    proof (cases "k + 1 < length y \<and> y ! k = y ! j")
      case True
      with "1" have "k + 1 \<le> look_ahead y j (k + 1)" by simp
      with True show ?thesis by (subst look_ahead.simps) simp
    next
      case False
      then show ?thesis by (subst look_ahead.simps) auto
    qed
  qed
  have "i + 1 \<le> i_ahead" unfolding b by (rule ge)
  with a show "((x, i_ahead + 1), (x, i)) \<in> measure (\<lambda>(x, i). length x - i)"
    by simp
qed auto

declare local_maxima_from.simps [simp del]

definition local_maxima_1d :: "real list \<Rightarrow> nat list" where
  "local_maxima_1d x = local_maxima_from x 1"

text \<open>
  The \<open>height\<close> condition keeps the maxima whose value is at least the given minimum
  (\<open>hmin <= x[peaks]\<close>).
\<close>

definition select_by_height :: "real list \<Rightarrow> real \<Rightarrow> nat list \<Rightarrow> nat list" where
  "select_by_height x hmin peaks = filter (\<lambda>p. hmin \<le> x ! p) peaks"

text \<open>
  The \<open>distance\<close> condition: the peaks are visited from the highest to the lowest
  (\<open>argsort\<close> of the heights, read backwards; ties are taken in the order of a stable
  sort); a visited peak that is still kept removes every earlier and later peak that
  is closer than \<open>distance\<close> samples.
\<close>

fun clear_earlier :: "nat list \<Rightarrow> nat \<Rightarrow> nat \<Rightarrow> nat \<Rightarrow> bool list \<Rightarrow> bool list" where
  "clear_earlier peaks d j 0 keep = keep"
| "clear_earlier peaks d j (Suc k) keep =
     (if int (peaks ! j) - int (peaks ! k) < int d
      then clear_earlier peaks d j k (keep[k := False]) else keep)"

function clear_later :: "nat list \<Rightarrow> nat \<Rightarrow> nat \<Rightarrow> nat \<Rightarrow> bool list \<Rightarrow> bool list" where
  "clear_later peaks d j k keep =
     (if k < length peaks \<and> int (peaks ! k) - int (peaks ! j) < int d
      then clear_later peaks d j (k + 1) (keep[k := False]) else keep)"
  by pat_completeness auto
termination
  by (relation "measure (\<lambda>(peaks, d, j, k, keep). length peaks - k)") auto

declare clear_later.simps [simp del]

definition visit_peak :: "nat list \<Rightarrow> nat \<Rightarrow> bool list \<Rightarrow> nat \<Rightarrow> bool list" where
  "visit_peak peaks d keep j =
     (if \<not> keep ! j then keep
      else clear_later peaks d j (j + 1) (clear_earlier peaks d j j keep))"

definition select_by_peak_distance :: "nat list \<Rightarrow> real list \<Rightarrow> nat \<Rightarrow> bool list" where
  "select_by_peak_distance peaks priority d =
     foldl (visit_peak peaks d) (replicate (length peaks) True)
           (rev (sort_key (\<lambda>j. priority ! j) [0..<length peaks]))"

text \<open>
  \<open>find_peaks\<close> raises \<open>ValueError\<close> when \<open>distance < 1\<close> (\<open>None\<close>); otherwise it
  applies the height condition and then the distance condition to the local maxima.
\<close>

definition find_peaks :: "real list \<Rightarrow> real \<Rightarrow> nat \<Rightarrow> nat list option" where
  "find_peaks x height distance =
     (if distance < 1 then None
      else
        (let peaks = select_by_height x height (local_maxima_1d x);
             keep = select_by_peak_distance peaks (map (\<lambda>p. x ! p) peaks) distance
         in Some (map fst (filter snd (zip peaks keep)))))"

text \<open>\<open>librosa.frames_to_time(peak, sr=sr, hop_length=hop_length)\<close>.\<close>

definition frames_to_time :: "nat \<Rightarrow> nat \<Rightarrow> real" where
  "frames_to_time peak sr = real (peak * hop_length) / real sr"

text \<open>
  \<open>librosa.get_duration(y=y, sr=sr)\<close> is the number of samples divided by the sample
  rate; a sample rate of zero makes the division fail (\<open>None\<close>).
\<close>

definition get_duration :: "real list \<Rightarrow> nat \<Rightarrow> real option" where
  "get_duration y sr = (if sr = 0 then None else Some (real (length y) / real sr))"

subsection \<open>The body of analyze_audio\<close>

text \<open>Line 175: the normalised waveform stored on the track.\<close>

definition normalize_rms :: "real list \<Rightarrow> real \<Rightarrow> real list" where
  "normalize_rms rms m = (if m > 0 then map (\<lambda>v. v / m) rms else rms)"

text \<open>Line 179: \<open>np.convolve(rms, np.ones(10)/10, mode='same')\<close>.\<close>

definition smooth :: "real list \<Rightarrow> real list" where
  "smooth rms = np_convolve_same rms (replicate 10 (1 / 10))"

text \<open>Lines 186-197: the highlight built around one peak.\<close>

definition make_highlight :: "real list \<Rightarrow> nat \<Rightarrow> real \<Rightarrow> nat \<Rightarrow> highlight" where
  "make_highlight smoothed_rms sr track_duration peak =
     (let time_point = frames_to_time peak sr in
      \<lparr> start = max 0 (time_point - 10),
        end_s = min track_duration (time_point + 10),
        peak_time = time_point,
        intensity = smoothed_rms ! peak \<rparr>)"

text \<open>
  Lines 199-201: \<open>highlights.sort(key=lambda x: x["intensity"], reverse=True)\<close> is a
  stable sort into descending order; \<open>highlights[:3]\<close> keeps the first three.
\<close>

definition sort_highlights :: "highlight list \<Rightarrow> highlight list" where
  "sort_highlights hs = sort_key (\<lambda>h. - intensity h) hs"

text \<open>Lines 204-207: the \<open>except\<close> branch.\<close>

definition analysis_failed :: "track \<Rightarrow> track" where
  "analysis_failed t = t\<lparr> waveform_data := Some [], highlights := Some [] \<rparr>"

text \<open>
  The \<open>try\<close> block of \<open>analyze_audio\<close>. The first argument stands for
  \<open>librosa.load(path, sr=None)\<close>: the decoded samples and the sample rate of the file
  at a path, or \<open>None\<close> when loading raises. The function mutates the track; the model
  returns the track as it is left by the block: \<open>Inr\<close> when the block runs to its
  \<open>return\<close>, \<open>Inl\<close> when a statement raises (with the track as mutated so far).
\<close>

definition analyze_try :: "(string \<Rightarrow> (real list \<times> nat) option) \<Rightarrow> track \<Rightarrow> track + track" where
  "analyze_try load t =
     (case local_path t of
        None \<Rightarrow> Inl t
      | Some path \<Rightarrow>
     (case load path of
        None \<Rightarrow> Inl t
      | Some (y, sr) \<Rightarrow>
     (case get_duration y sr of
        None \<Rightarrow> Inl t
      | Some d \<Rightarrow>
        (let t1 = t\<lparr> duration := Some d \<rparr>;
             rms = librosa_rms y
         in case np_max rms of
              None \<Rightarrow> Inl t1
            | Some m \<Rightarrow>
               (let t2 = t1\<lparr> waveform_data := Some (normalize_rms rms m) \<rparr>;
                    smoothed_rms = smooth rms
                in case find_peaks smoothed_rms (np_mean smoothed_rms * 1.5)
                                   (sr div hop_length * 5) of
                     None \<Rightarrow> Inl t2
                   | Some peaks \<Rightarrow>
                       Inr (t2\<lparr> highlights :=
                              Some (take 3 (sort_highlights
                                      (map (make_highlight smoothed_rms sr d) peaks))) \<rparr>))))))"

text \<open>
  \<open>analyze_audio\<close>: the \<open>try\<close> block with its \<open>except Exception\<close> handler. No
  exception leaves the function, so the model is a total function to the track.
\<close>

definition analyze_audio :: "(string \<Rightarrow> (real list \<times> nat) option) \<Rightarrow> track \<Rightarrow> track" where
  "analyze_audio load t =
     (case analyze_try load t of
        Inl t' \<Rightarrow> analysis_failed t'
      | Inr t' \<Rightarrow> t')"

section \<open>Mix assembly (MixCreator.create_mix, lines 214-294)\<close>

subsection \<open>Ordering of the tracks (lines 217-220)\<close>

text \<open>
  The sort key \<open>np.mean([h["intensity"] for h in t.highlights]) if t.highlights else 0\<close>:
  a missing or empty highlight list is falsy and gives the key 0.
\<close>

definition mean_intensity :: "track \<Rightarrow> real" where
  "mean_intensity t =
     (case highlights t of
        None \<Rightarrow> 0
      | Some hs \<Rightarrow> if hs = [] then 0 else np_mean (map intensity hs))"

text \<open>\<open>tracks.sort(key=..., reverse=True)\<close>: a stable sort into descending order.\<close>

definition sort_tracks :: "track list \<Rightarrow> track list" where
  "sort_tracks ts = sort_key (\<lambda>t. - mean_intensity t) ts"

subsection \<open>Audio segments (pydub.AudioSegment)\<close>

text \<open>
  An \<open>AudioSegment\<close> is modelled as the list of its frames at one frame per
  millisecond, mono, each frame an exact real amplitude (the rounding and clipping of
  \<open>audioop\<close> are not represented). \<open>len(segment)\<close>, in milliseconds, is the length of
  the list, and \<open>AudioSegment.empty()\<close> is the empty list.
\<close>

type_synonym audio_segment = "real list"

text \<open>\<open>_parse_position\<close>: a negative position counts from the end.\<close>

definition parse_position :: "audio_segment \<Rightarrow> int \<Rightarrow> int" where
  "parse_position a val = (if val < 0 then int (length a) - \<bar>val\<bar> else val)"

text \<open>Python's \<open>data[i:j]\<close> on the raw data: negative indices wrap once and are clamped.\<close>

definition py_index :: "nat \<Rightarrow> int \<Rightarrow> nat" where
  "py_index n i = (if i < 0 then nat (max 0 (int n + i)) else min (nat i) n)"

definition py_slice :: "'a list \<Rightarrow> int \<Rightarrow> int \<Rightarrow> 'a list" where
  "py_slice xs i j =
     (let a = py_index (length xs) i; b = py_index (length xs) j
      in take (b - a) (drop a xs))"

text \<open>
  The common tail of \<open>__getitem__\<close>: the data between two parsed positions; when it is
  shorter than requested it is filled with silence made from its first frame, unless
  more than 2 ms are missing, which raises \<open>TooManyMissingFrames\<close> (\<open>None\<close>).
\<close>

definition fetch_frames :: "audio_segment \<Rightarrow> int \<Rightarrow> int \<Rightarrow> audio_segment option" where
  "fetch_frames a first stop =
     (let data = py_slice a first stop;
          missing_frames = (stop - first) - int (length data)
      in if missing_frames \<noteq> 0 then
           (if missing_frames > 2 then None
            else Some (data @ concat (replicate (nat missing_frames)
                                        (map (\<lambda>v. v * 0) (take 1 data)))))
         else Some data)"

text \<open>\<open>segment[first:stop]\<close>: both bounds are first clamped to the length.\<close>

definition getitem_slice :: "audio_segment \<Rightarrow> int \<Rightarrow> int \<Rightarrow> audio_segment option" where
  "getitem_slice a first stop =
     (let first' = min first (int (length a)); stop' = min stop (int (length a))
      in fetch_frames a (parse_position a first') (parse_position a stop'))"

text \<open>\<open>segment[ms]\<close>: the millisecond from \<open>ms\<close> to \<open>ms + 1\<close>, not clamped.\<close>

definition getitem_ms :: "audio_segment \<Rightarrow> int \<Rightarrow> audio_segment option" where
  "getitem_ms a ms = fetch_frames a (parse_position a ms) (parse_position a (ms + 1))"

text \<open>
  \<open>seg1.overlay(seg2, position=p)\<close> with the defaults (played once): the part of
  \<open>seg1\<close> before the position, then the rest of \<open>seg1\<close> with \<open>seg2\<close> added frame by frame,
  \<open>seg2\<close> being cut to what is left of \<open>seg1\<close>. The result is never longer than \<open>seg1\<close>.
\<close>

definition overlay :: "audio_segment \<Rightarrow> audio_segment \<Rightarrow> int \<Rightarrow> audio_segment option" where
  "overlay seg1 seg2 position =
     (case getitem_slice seg1 0 position of
        None \<Rightarrow> None
      | Some before \<Rightarrow>
     (case getitem_slice seg1 position (int (length seg1)) of
        None \<Rightarrow> None
      | Some rest \<Rightarrow>
          (let remaining = length rest;
               seg2' = (if length seg2 \<ge> remaining then take remaining seg2 else seg2);
               seg2_len = length seg2'
           in Some (before @ map2 (+) (take seg2_len rest) seg2' @ drop seg2_len rest))))"

text \<open>\<open>db_to_float\<close>: a gain in dB as an amplitude ratio.\<close>

definition db_to_float :: "real \<Rightarrow> real" where
  "db_to_float db = 10 powr (db / 20)"

text \<open>
  \<open>fade\<close> for a duration above 100 ms, with \<open>first\<close> and \<open>stop\<close> as resolved by the
  caller: the part before the fade at the starting gain, one gain step per millisecond
  over the fade, the part after it at the final gain.
\<close>

definition fade :: "audio_segment \<Rightarrow> real \<Rightarrow> real \<Rightarrow> int \<Rightarrow> int \<Rightarrow> nat \<Rightarrow> audio_segment option" where
  "fade a to_gain from_gain first stop dur =
     (let from_power = db_to_float from_gain;
          gain_delta = db_to_float to_gain - from_power;
          scale_step = gain_delta / real dur
      in case getitem_slice a 0 first of
           None \<Rightarrow> None
         | Some before_fade \<Rightarrow>
        (case those (map (\<lambda>i. map_option (map (\<lambda>v. v * (from_power + scale_step * real i)))
                                          (getitem_ms a (first + int i)))
                         [0..<dur]) of
           None \<Rightarrow> None
         | Some chunks \<Rightarrow>
        (case getitem_slice a stop (int (length a)) of
           None \<Rightarrow> None
         | Some after_fade \<Rightarrow>
             Some (map (\<lambda>v. v * from_power) before_fade @ concat chunks
                   @ map (\<lambda>v. v * db_to_float to_gain) after_fade))))"

text \<open>
  \<open>fade_in(d)\<close> is \<open>fade(from_gain=-120, duration=d, start=0)\<close>, so the fade ends at
  \<open>d\<close>; \<open>fade_out(d)\<close> is \<open>fade(to_gain=-120, duration=d, end=inf)\<close>, so the end is
  clamped to the length and the fade starts \<open>d\<close> before it.
\<close>

definition fade_in :: "nat \<Rightarrow> audio_segment \<Rightarrow> audio_segment option" where
  "fade_in dur a = fade a 0 (-120) 0 (0 + int dur) dur"

definition fade_out :: "nat \<Rightarrow> audio_segment \<Rightarrow> audio_segment option" where
  "fade_out dur a = fade a (-120) 0 (int (length a) - int dur) (int (length a)) dur"

subsection \<open>The outside world\<close>

text \<open>
  What the assembler asks of its surroundings: whether a path exists, what
  \<open>AudioSegment.from_file\<close> decodes from it (\<open>None\<close> when it raises), whether the export
  of the final buffer succeeds, and whether the database update succeeds.
\<close>

record world =
  path_exists :: "string \<Rightarrow> bool"
  from_file :: "string \<Rightarrow> audio_segment option"
  export_succeeds :: bool
  db_update_succeeds :: bool

subsection \<open>One track of the loop (lines 229-270)\<close>

text \<open>Python's \<open>int(x)\<close> on a float truncates towards zero.\<close>

definition py_int :: "real \<Rightarrow> int" where
  "py_int x = (if 0 \<le> x then \<lfloor>x\<rfloor> else \<lceil>x\<rceil>)"

text \<open>Lines 238-254: the excerpt of a track, \<open>None\<close> when slicing raises.\<close>

definition select_segment :: "track \<Rightarrow> audio_segment \<Rightarrow> audio_segment option" where
  "select_segment t audio =
     (case highlights t of
        Some (highlight # rest) \<Rightarrow>
          (let start_ms = py_int (start highlight * 1000);
               end_ms = py_int (end_s highlight * 1000);
               end_ms' = min end_ms (int (length audio))
           in getitem_slice audio start_ms end_ms')
      | _ \<Rightarrow>
          (let middle = int (length audio) div 2;
               start_ms = max 0 (middle - 15000);
               end_ms = min (int (length audio)) (middle + 15000)
           in getitem_slice audio start_ms end_ms))"

text \<open>
  The state of the loop is the buffer \<open>final_mix\<close> and the cursor
  \<open>current_position\<close>. A track without an existing local path is skipped; an exception
  anywhere in the \<open>try\<close> block is caught and the track is skipped with the state
  unchanged, since both variables are assigned only after the last call that can raise.
\<close>

definition process_track ::
  "world \<Rightarrow> nat \<Rightarrow> track \<Rightarrow> audio_segment \<times> int \<Rightarrow> audio_segment \<times> int" where
  "process_track w i t st =
     (case st of (final_mix, current_position) \<Rightarrow>
      (case local_path t of
         None \<Rightarrow> st
       | Some path \<Rightarrow>
           if path = [] \<or> \<not> path_exists w path then st
           else
      (case from_file w path of
         None \<Rightarrow> st
       | Some audio \<Rightarrow>
      (case select_segment t audio of
         None \<Rightarrow> st
       | Some segment0 \<Rightarrow>
      (case fade_in 2000 segment0 of
         None \<Rightarrow> st
       | Some segment1 \<Rightarrow>
      (case fade_out 2000 segment1 of
         None \<Rightarrow> st
       | Some segment \<Rightarrow>
           if i > 0 then
             (case overlay final_mix segment (current_position - 2000) of
                None \<Rightarrow> st
              | Some final_mix' \<Rightarrow>
                  (final_mix', current_position + (int (length segment) - 2000)))
           else (final_mix @ segment, current_position + int (length segment))))))))"

text \<open>\<open>for i, track in enumerate(tracks)\<close>.\<close>

fun assemble_loop ::
  "world \<Rightarrow> nat \<Rightarrow> track list \<Rightarrow> audio_segment \<times> int \<Rightarrow> audio_segment \<times> int" where
  "assemble_loop w i [] st = st"
| "assemble_loop w i (t # ts) st = assemble_loop w (Suc i) ts (process_track w i t st)"

text \<open>Lines 217-270: sort, then run the loop from the empty buffer and cursor 0.\<close>

definition assemble :: "world \<Rightarrow> track list \<Rightarrow> audio_segment \<times> int" where
  "assemble w tracks = assemble_loop w 0 (sort_tracks tracks) ([], 0)"

subsection \<open>create_mix and the endpoint (lines 272-294 and 391-398)\<close>

definition mix_path :: "mix \<Rightarrow> string" where
  "mix_path m = ''/tmp/autodj/mixes/'' @ mix_id m @ ''.mp3''"

text \<open>Lines 276-278: the fields set after a successful export.\<close>

definition completed_mix :: "mix \<Rightarrow> audio_segment \<Rightarrow> mix" where
  "completed_mix m final_mix =
     m\<lparr> file_path := Some (mix_path m),
        mix_duration := Some (real (length final_mix) / 1000),
        status := Completed \<rparr>"

text \<open>
  The successive states of the mix object during \<open>create_mix\<close>, the state it is called
  with first: if the export raises, the handler sets \<open>failed\<close>; otherwise the mix is
  completed, and if the database update then raises, the same handler sets \<open>failed\<close>.
\<close>

definition mix_history :: "world \<Rightarrow> mix \<Rightarrow> track list \<Rightarrow> mix list" where
  "mix_history w m tracks =
     (let final_mix = fst (assemble w tracks) in
      if \<not> export_succeeds w then [m, m\<lparr> status := Failed \<rparr>]
      else if db_update_succeeds w then [m, completed_mix m final_mix]
      else [m, completed_mix m final_mix, (completed_mix m final_mix)\<lparr> status := Failed \<rparr>])"

text \<open>\<open>create_mix\<close>: the mix as it is left, and whether the call raised.\<close>

definition create_mix :: "world \<Rightarrow> mix \<Rightarrow> track list \<Rightarrow> mix \<times> bool" where
  "create_mix w m tracks =
     (last (mix_history w m tracks), \<not> (export_succeeds w \<and> db_update_succeeds w))"

text \<open>
  The class default of \<open>Mix.status\<close> is \<open>"pending"\<close>; the endpoint (lines 392-397)
  builds the mix after the downloads, passing \<open>status="processing"\<close>.
\<close>

definition new_mix :: "string \<Rightarrow> string \<Rightarrow> string \<Rightarrow> string list \<Rightarrow> status option \<Rightarrow> mix" where
  "new_mix new_id t g ts st =
     \<lparr> mix_id = new_id, mix_title = t, mix_genre = g, mix_tracks = ts,
       mix_duration = None, file_path = None,
       status = (case st of None \<Rightarrow> Pending | Some s \<Rightarrow> s) \<rparr>"

definition endpoint_mix :: "string \<Rightarrow> string \<Rightarrow> string \<Rightarrow> track list \<Rightarrow> mix" where
  "endpoint_mix new_id t g tracks = new_mix new_id t g (map track_id tracks) (Some Processing)"

section \<open>Notions used in the proofs\<close>

text \<open>
  A reported maximum is the middle of a plateau that starts at or after the pointer,
  rises strictly on its left and falls strictly on its right.
\<close>

definition plateau_peak :: "real list \<Rightarrow> nat \<Rightarrow> nat \<Rightarrow> bool" where
  "plateau_peak x i p \<longleftrightarrow>
     (\<exists>l r. i \<le> l \<and> l \<le> r \<and> r + 1 < length x \<and> p = (l + r) div 2 \<and>
            x ! (l - 1) < x ! l \<and> (\<forall>k. l \<le> k \<and> k \<le> r \<longrightarrow> x ! k = x ! l) \<and>
            x ! (r + 1) < x ! l)"

definition smooth_offset :: "real list \<Rightarrow> nat" where
  "smooth_offset rms = (min (length rms) 10 - 1) div 2"

section \<open>Example inputs\<close>

definition unreadable_track :: track where
  "unreadable_track =
     \<lparr> track_id = ''t0'', title = ''Unknown Title'', artist = None, genre = ''House'',
       source_url = ''https://www.youtube.com/watch?v=x'', local_path = Some ''/tmp/autodj/t0.mp3'',
       duration = None, waveform_data = None, highlights = None \<rparr>"

text \<open>
  A signal of 16384 samples at 44100 Hz that is silent except for 512 samples of
  amplitude 1: frames 8 and 9 have RMS 1/2, every other frame has RMS 0.
\<close>

definition example_signal :: "real list" where
  "example_signal = replicate 8192 0 @ replicate 512 1 @ replicate 7680 0"

definition example_load :: "string \<Rightarrow> (real list \<times> nat) option" where
  "example_load p = (if p = ''/tmp/autodj/t1.mp3'' then Some (example_signal, 44100) else None)"

definition example_track :: track where
  "example_track =
     \<lparr> track_id = ''t1'', title = ''Unknown Title'', artist = None, genre = ''House'',
       source_url = ''https://www.youtube.com/watch?v=y'', local_path = Some ''/tmp/autodj/t1.mp3'',
       duration = None, waveform_data = None, highlights = None \<rparr>"

definition example_highlight :: highlight where
  "example_highlight =
     \<lparr> start = 0, end_s = 16384 / 44100, peak_time = 9216 / 44100, intensity = 1 / 10 \<rparr>"

text \<open>
  Tracks of 60 seconds of decoded audio. Two have one highlight from second 20 to
  second 40, one has no highlight, and one has a highlight but a local path that does
  not exist.
\<close>

definition mix_world :: world where
  "mix_world =
     \<lparr> path_exists = (\<lambda>p. p \<noteq> ''/tmp/autodj/gone.mp3''),
       from_file = (\<lambda>p. Some (replicate 60000 (1 / 2))),
       export_succeeds = True,
       db_update_succeeds = True \<rparr>"

definition loud_track :: track where
  "loud_track =
     \<lparr> track_id = ''a'', title = ''A'', artist = None, genre = ''House'',
       source_url = ''https://www.youtube.com/watch?v=a'', local_path = Some ''/tmp/autodj/a.mp3'',
       duration = Some 60, waveform_data = Some [1],
       highlights = Some [\<lparr> start = 20, end_s = 40, peak_time = 30, intensity = 1 / 2 \<rparr>] \<rparr>"

definition quiet_track :: track where
  "quiet_track =
     \<lparr> track_id = ''b'', title = ''B'', artist = None, genre = ''House'',
       source_url = ''https://www.youtube.com/watch?v=b'', local_path = Some ''/tmp/autodj/b.mp3'',
       duration = Some 60, waveform_data = Some [1],
       highlights = Some [\<lparr> start = 20, end_s = 40, peak_time = 30, intensity = 2 / 5 \<rparr>] \<rparr>"

definition plain_track :: track where
  "plain_track =
     \<lparr> track_id = ''c'', title = ''C'', artist = None, genre = ''House'',
       source_url = ''https://www.youtube.com/watch?v=c'', local_path = Some ''/tmp/autodj/c.mp3'',
       duration = Some 60, waveform_data = Some [0], highlights = Some [] \<rparr>"

definition gone_track :: track where
  "gone_track =
     \<lparr> track_id = ''d'', title = ''D'', artist = None, genre = ''House'',
       source_url = ''https://www.youtube.com/watch?v=d'', local_path = Some ''/tmp/autodj/gone.mp3'',
       duration = Some 60, waveform_data = Some [1],
       highlights = Some [\<lparr> start = 20, end_s = 40, peak_time = 30, intensity = 9 / 10 \<rparr>] \<rparr>"

definition example_mix :: "track list \<Rightarrow> mix" where
  "example_mix tracks = endpoint_mix ''m1'' ''Automated DJ Mix'' ''House'' tracks"

lemma look_ahead_ge: "i_ahead \<le> look_ahead x i i_ahead"
proof (induction x i i_ahead rule: look_ahead.induct)
  case (1 x i i_ahead)
  show ?case
  proof (cases "i_ahead + 1 < length x \<and> x ! i_ahead = x ! i")
    case True
    with "1" have "i_ahead + 1 \<le> look_ahead x i (i_ahead + 1)" by simp
    with True show ?thesis by (subst look_ahead.simps) simp
  next
    case False
    then show ?thesis by (subst look_ahead.simps) auto
  qed
qed

section \<open>Properties of the analysis\<close>

subsection \<open>When the analysis raises\<close>

lemma np_max_librosa_rms: "\<exists>m. np_max (librosa_rms y) = Some m"
  by (cases "librosa_rms y") (simp_all add: librosa_rms_def n_frames_def)

lemma analyze_try_raises_iff:
  "isl (analyze_try load t) \<longleftrightarrow>
     (case local_path t of
        None \<Rightarrow> True
      | Some path \<Rightarrow>
         (case load path of
            None \<Rightarrow> True
          | Some (y, sr) \<Rightarrow> sr < hop_length))"
proof (cases "local_path t")
  case None
  then show ?thesis by (simp add: analyze_try_def)
next
  case (Some path)
  show ?thesis
  proof (cases "load path")
    case None
    with Some show ?thesis by (simp add: analyze_try_def)
  next
    case (Some ysr)
    obtain y sr where ysr: "ysr = (y, sr)" by (cases ysr)
    obtain m where m: "np_max (librosa_rms y) = Some m"
      using np_max_librosa_rms by blast
    have "sr div 1024 * 5 < 1 \<longleftrightarrow> sr < 1024" by auto
    with \<open>local_path t = Some path\<close> Some ysr m show ?thesis
      by (auto simp: analyze_try_def get_duration_def find_peaks_def Let_def hop_length_def)
  qed
qed

text \<open>
  Claim C9. Whenever a statement of the analysis raises (the track has no local path,
  loading the file fails, or the sample rate is below the hop length so that the peak
  distance is zero), \<open>analyze_audio\<close> still returns, and it leaves the waveform data and
  the highlights as empty lists. In every case both fields are set (never null)
  after the call.
\<close>

theorem analyze_audio_failure_empty:
  "(isl (analyze_try load t) \<longrightarrow>
      waveform_data (analyze_audio load t) = Some [] \<and>
      highlights (analyze_audio load t) = Some []) \<and>
   waveform_data (analyze_audio load t) \<noteq> None \<and>
   highlights (analyze_audio load t) \<noteq> None"
  by (auto simp: analyze_audio_def analyze_try_def analysis_failed_def Let_def
           split: option.splits prod.splits sum.splits)

theorem analyze_audio_failure_empty_witness:
  "isl (analyze_try (\<lambda>p. None) unreadable_track) \<and>
   waveform_data (analyze_audio (\<lambda>p. None) unreadable_track) = Some [] \<and>
   highlights (analyze_audio (\<lambda>p. None) unreadable_track) = Some []"
proof -
  have "isl (analyze_try (\<lambda>p. None) unreadable_track)"
    by (simp add: analyze_try_raises_iff unreadable_track_def)
  with analyze_audio_failure_empty [of "\<lambda>p. None" unreadable_track] show ?thesis
    by simp
qed

subsection \<open>Ranking of the highlights\<close>

lemma sorted_sort_highlights:
  "sorted_wrt (\<lambda>a b. intensity b \<le> intensity a) (sort_highlights hs)"
proof -
  have "sorted (map (\<lambda>h. - intensity h) (sort_key (\<lambda>h. - intensity h) hs))"
    by (rule sorted_sort_key)
  then show ?thesis
    by (simp add: sort_highlights_def sorted_map)
qed

lemma highlights_analyze_audio:
  "highlights (analyze_audio load t) = Some [] \<or>
   (\<exists>sm sr d peaks. highlights (analyze_audio load t) =
        Some (take 3 (sort_highlights (map (make_highlight sm sr d) peaks))))"
  by (auto simp: analyze_audio_def analyze_try_def analysis_failed_def Let_def
           split: option.splits prod.splits sum.splits)

text \<open>
  Claim C7. For every analysed track the stored highlights are in order of
  non-increasing intensity, and there are at most three of them.
\<close>

theorem analyze_audio_highlights_ranked:
  "\<exists>hs. highlights (analyze_audio load t) = Some hs \<and>
        sorted_wrt (\<lambda>a b. intensity b \<le> intensity a) hs \<and> length hs \<le> 3"
proof -
  from highlights_analyze_audio [of load t] show ?thesis
  proof
    assume "highlights (analyze_audio load t) = Some []"
    then show ?thesis by simp
  next
    assume "\<exists>sm sr d peaks. highlights (analyze_audio load t) =
        Some (take 3 (sort_highlights (map (make_highlight sm sr d) peaks)))"
    then obtain sm sr d peaks where
      h: "highlights (analyze_audio load t) =
            Some (take 3 (sort_highlights (map (make_highlight sm sr d) peaks)))"
      by blast
    have "sorted_wrt (\<lambda>a b. intensity b \<le> intensity a)
            (take 3 (sort_highlights (map (make_highlight sm sr d) peaks)))"
      by (rule sorted_wrt_take) (rule sorted_sort_highlights)
    with h show ?thesis by simp
  qed
qed

subsection \<open>Local maxima\<close>

lemma plateau_peakI:
  "i \<le> l \<Longrightarrow> l \<le> r \<Longrightarrow> r + 1 < length x \<Longrightarrow> p = (l + r) div 2 \<Longrightarrow>
   x ! (l - 1) < x ! l \<Longrightarrow> (\<And>k. l \<le> k \<Longrightarrow> k \<le> r \<Longrightarrow> x ! k = x ! l) \<Longrightarrow>
   x ! (r + 1) < x ! l \<Longrightarrow> plateau_peak x i p"
  unfolding plateau_peak_def by blast

lemma plateau_peakE:
  assumes "plateau_peak x i p"
  obtains l r where "i \<le> l" "l \<le> r" "r + 1 < length x" "p = (l + r) div 2"
    "x ! (l - 1) < x ! l" "\<And>k. l \<le> k \<Longrightarrow> k \<le> r \<Longrightarrow> x ! k = x ! l" "x ! (r + 1) < x ! l"
  using assms unfolding plateau_peak_def by blast

lemma plateau_peak_mono:
  assumes "plateau_peak x j p" and "i \<le> j"
  shows "plateau_peak x i p"
proof -
  from assms(1) obtain l r where h: "j \<le> l" "l \<le> r" "r + 1 < length x" "p = (l + r) div 2"
    "x ! (l - 1) < x ! l" "\<And>k. l \<le> k \<Longrightarrow> k \<le> r \<Longrightarrow> x ! k = x ! l" "x ! (r + 1) < x ! l"
    by (rule plateau_peakE) blast
  from assms(2) h(1) have "i \<le> l" by simp
  then show ?thesis using h(2-) by (rule plateau_peakI)
qed

lemma np_max_eq_Max: "np_max xs = Some m \<Longrightarrow> m = Max (set xs)"
proof (cases xs)
  case Nil
  then show "np_max xs = Some m \<Longrightarrow> m = Max (set xs)" by simp
next
  case (Cons x xs')
  assume "np_max xs = Some m"
  with Cons have "m = fold max xs' x" by simp
  also have "\<dots> = Max (set (x # xs'))" by (rule Max.set_eq_fold [symmetric])
  finally show "m = Max (set xs)" using Cons by simp
qed

lemma frame_rms_nonneg: "0 \<le> frame_rms fr"
  unfolding frame_rms_def by (auto intro!: divide_nonneg_nonneg sum_list_nonneg)

lemma librosa_rms_nonneg: "v \<in> set (librosa_rms y) \<Longrightarrow> 0 \<le> v"
  by (auto simp: librosa_rms_def frame_rms_nonneg)

lemma length_librosa_rms: "length (librosa_rms y) = n_frames y"
  by (simp add: librosa_rms_def)

lemma n_frames_eq: "n_frames y = 1 + length y div 1024"
  by (simp add: n_frames_def padded_signal_def frame_length_def hop_length_def)

lemma look_ahead_props:
  "a < length x \<Longrightarrow>
     look_ahead x i a < length x \<and> (\<forall>k. a \<le> k \<and> k < look_ahead x i a \<longrightarrow> x ! k = x ! i)"
proof (induction x i a rule: look_ahead.induct)
  case (1 x i a)
  show ?case
  proof (cases "a + 1 < length x \<and> x ! a = x ! i")
    case True
    then have eq: "look_ahead x i a = look_ahead x i (a + 1)"
      by (subst look_ahead.simps) simp
    from True have "a + 1 < length x" by simp
    from "1.IH" [OF True this] have ih: "look_ahead x i (a + 1) < length x \<and>
        (\<forall>k. a + 1 \<le> k \<and> k < look_ahead x i (a + 1) \<longrightarrow> x ! k = x ! i)" .
    show ?thesis
    proof (intro conjI allI impI)
      show "look_ahead x i a < length x" using ih eq by simp
    next
      fix k assume k: "a \<le> k \<and> k < look_ahead x i a"
      show "x ! k = x ! i"
      proof (cases "k = a")
        case True
        with \<open>a + 1 < length x \<and> x ! a = x ! i\<close> show ?thesis by simp
      next
        case False
        with k eq have "a + 1 \<le> k \<and> k < look_ahead x i (a + 1)" by simp
        with ih show ?thesis by blast
      qed
    qed
  next
    case False
    then have "look_ahead x i a = a" by (subst look_ahead.simps) auto
    with "1.prems" show ?thesis by simp
  qed
qed

lemma local_maxima_from_props:
  "p \<in> set (local_maxima_from x i) \<Longrightarrow> plateau_peak x i p"
proof (induction x i rule: local_maxima_from.induct)
  case (1 x i)
  show ?case
  proof (cases "i + 1 < length x")
    case False
    then have "local_maxima_from x i = []" by (subst local_maxima_from.simps) simp
    with "1.prems" show ?thesis by simp
  next
    case inb: True
    define a where "a = look_ahead x i (i + 1)"
    have a_ge: "i + 1 \<le> a" unfolding a_def by (rule look_ahead_ge)
    have a_props: "a < length x \<and> (\<forall>k. i + 1 \<le> k \<and> k < a \<longrightarrow> x ! k = x ! i)"
      unfolding a_def using look_ahead_props [of "i + 1" x i] inb by simp
    show ?thesis
    proof (cases "x ! (i - 1) < x ! i")
      case False
      with inb have eq: "local_maxima_from x i = local_maxima_from x (i + 1)"
        by (subst local_maxima_from.simps) simp
      from "1.prems" eq have pin: "p \<in> set (local_maxima_from x (i + 1))" by simp
      have "plateau_peak x (i + 1) p" by (rule "1.IH"(3) [OF inb False pin])
      then show ?thesis by (rule plateau_peak_mono) simp
    next
      case rise: True
      show ?thesis
      proof (cases "x ! a < x ! i")
        case False
        with inb rise have eq: "local_maxima_from x i = local_maxima_from x (i + 1)"
          by (subst local_maxima_from.simps) (simp add: a_def Let_def)
        from "1.prems" eq have pin: "p \<in> set (local_maxima_from x (i + 1))" by simp
        have "plateau_peak x (i + 1) p" by (rule "1.IH"(2) [OF inb rise a_def False pin])
        then show ?thesis by (rule plateau_peak_mono) simp
      next
        case fall: True
        with inb rise have eq: "local_maxima_from x i =
            ((i + (a - 1)) div 2) # local_maxima_from x (a + 1)"
          by (subst local_maxima_from.simps) (simp add: a_def Let_def)
        from "1.prems" eq consider "p = (i + (a - 1)) div 2" | "p \<in> set (local_maxima_from x (a + 1))"
          by auto
        then show ?thesis
        proof cases
          case 1
          have eqs: "x ! k = x ! i" if "i \<le> k" "k \<le> a - 1" for k
          proof (cases "k = i")
            case True
            then show ?thesis by simp
          next
            case False
            with that a_ge have "i + 1 \<le> k \<and> k < a" by arith
            with a_props show ?thesis by blast
          qed
          have a1: "a - 1 + 1 = a" using a_ge by simp
          show ?thesis
          proof (rule plateau_peakI [of i i "a - 1"])
            show "i \<le> a - 1" using a_ge by simp
            show "a - 1 + 1 < length x" unfolding a1 using a_props by simp
            show "p = (i + (a - 1)) div 2" by (rule 1)
            show "x ! (i - 1) < x ! i" by (rule rise)
            show "x ! (a - 1 + 1) < x ! i" unfolding a1 by (rule fall)
            show "x ! k = x ! i" if "i \<le> k" "k \<le> a - 1" for k using that by (rule eqs)
          qed simp
        next
          case 2
          have "plateau_peak x (a + 1) p" by (rule "1.IH"(1) [OF inb rise a_def fall 2])
          then show ?thesis by (rule plateau_peak_mono) (use a_ge in simp)
        qed
      qed
    qed
  qed
qed

subsection \<open>Accepted peaks\<close>

lemma find_peaks_subset:
  assumes "find_peaks x h d = Some ps" and "p \<in> set ps"
  shows "p \<in> set (local_maxima_1d x) \<and> h \<le> x ! p"
proof -
  define peaks where "peaks = select_by_height x h (local_maxima_1d x)"
  define keep where "keep = select_by_peak_distance peaks (map (\<lambda>p. x ! p) peaks) d"
  from assms(1) have "ps = map fst (filter snd (zip peaks keep))"
    by (simp add: find_peaks_def Let_def peaks_def keep_def split: if_splits)
  with assms(2) obtain b where "(p, b) \<in> set (zip peaks keep)" by auto
  then have "p \<in> set peaks" by (rule set_zip_leftD)
  then show ?thesis by (simp add: peaks_def select_by_height_def)
qed

lemma find_peaks_plateau:
  assumes "find_peaks x h d = Some ps" and "p \<in> set ps"
  shows "plateau_peak x 1 p \<and> h \<le> x ! p"
  using find_peaks_subset [OF assms] local_maxima_from_props [of p x 1]
  by (simp add: local_maxima_1d_def)

lemma plateau_peak_value:
  assumes "plateau_peak x i p"
  obtains l r where "i \<le> l" "l \<le> p" "p \<le> r" "r + 1 < length x" "p = (l + r) div 2"
    "x ! (l - 1) < x ! p" "x ! (r + 1) < x ! p" "\<And>k. l \<le> k \<Longrightarrow> k \<le> r \<Longrightarrow> x ! k = x ! p"
proof -
  from assms obtain l r where h: "i \<le> l" "l \<le> r" "r + 1 < length x" "p = (l + r) div 2"
    "x ! (l - 1) < x ! l" "\<And>k. l \<le> k \<Longrightarrow> k \<le> r \<Longrightarrow> x ! k = x ! l" "x ! (r + 1) < x ! l"
    by (rule plateau_peakE) blast
  have lp: "l \<le> p" and pr: "p \<le> r" using h(2,4) by auto
  have xp: "x ! p = x ! l" using h(6) [OF lp pr] .
  show thesis
  proof (rule that [of l r])
    show "x ! k = x ! p" if "l \<le> k" "k \<le> r" for k using h(6) [OF that] xp by simp
    show "i \<le> l" by (rule h(1))
    show "l \<le> p" by (rule lp)
    show "p \<le> r" by (rule pr)
    show "r + 1 < length x" by (rule h(3))
    show "p = (l + r) div 2" by (rule h(4))
    show "x ! (l - 1) < x ! p" using h(5) xp by simp
    show "x ! (r + 1) < x ! p" using h(7) xp by simp
  qed
qed

subsection \<open>The smoothed series\<close>

lemma same_window_fits:
  "0 < (n::nat) \<Longrightarrow> (min n 10 - 1) div 2 + max n 10 \<le> n + 10 - 1"
  by (cases "n \<le> 10") (simp_all add: min_def max_def; arith)+

lemma same_index_fits:
  "0 < (n::nat) \<Longrightarrow> i < max n 10 \<Longrightarrow> i + (min n 10 - 1) div 2 < n + 10 - 1"
  unfolding min_def max_def by (simp split: if_splits; arith)

lemma length_np_convolve_full: "length (np_convolve_full a v) = length a + length v - 1"
  by (simp add: np_convolve_full_def)

lemma length_smooth: "rms \<noteq> [] \<Longrightarrow> length (smooth rms) = max (length rms) 10"
proof -
  assume "rms \<noteq> []"
  then have "0 < length rms" by simp
  then have "(min (length rms) 10 - 1) div 2 + max (length rms) 10 \<le> length rms + 10 - 1"
    by (rule same_window_fits)
  then have "max (length rms) 10 \<le> length rms + 10 - 1 - (min (length rms) 10 - 1) div 2"
    by arith
  then show ?thesis
    by (simp add: smooth_def np_convolve_same_def length_np_convolve_full min_absorb2)
qed

lemma smooth_nth:
  assumes "rms \<noteq> []" and "i < max (length rms) 10"
  shows "smooth rms ! i =
     (\<Sum>j\<in>{j. j < length rms \<and> j \<le> i + smooth_offset rms \<and> i + smooth_offset rms - j < 10}. rms ! j) / 10"
proof -
  define k where "k = i + smooth_offset rms"
  have len: "0 < length rms" using assms(1) by simp
  have kb: "k < length rms + 10 - 1"
    unfolding k_def smooth_offset_def using len assms(2) by (rule same_index_fits)
  have "smooth rms ! i = np_convolve_full rms (replicate 10 (1 / 10)) ! k"
    using assms(2) kb len
    by (simp add: smooth_def np_convolve_same_def k_def smooth_offset_def length_np_convolve_full add.commute)
  also have "\<dots> = (\<Sum>j\<leftarrow>[0..<length rms].
        if j \<le> k \<and> k - j < 10 then rms ! j * (replicate 10 (1 / 10)) ! (k - j) else 0)"
    using kb by (simp add: np_convolve_full_def cong: if_cong)
  also have "\<dots> = (\<Sum>j\<leftarrow>[0..<length rms]. if j \<le> k \<and> k - j < 10 then rms ! j / 10 else 0)"
    by (rule arg_cong [where f = sum_list], rule map_cong) auto
  also have "\<dots> = (\<Sum>j\<in>{0..<length rms}. if j \<le> k \<and> k - j < 10 then rms ! j / 10 else 0)"
    by (simp add: interv_sum_list_conv_sum_set_nat)
  also have "\<dots> = (\<Sum>j\<in>{j. j < length rms \<and> j \<le> k \<and> k - j < 10}. rms ! j / 10)"
    by (rule sum.mono_neutral_cong_right) auto
  also have "\<dots> = (\<Sum>j\<in>{j. j < length rms \<and> j \<le> k \<and> k - j < 10}. rms ! j) / 10"
    by (simp add: sum_divide_distrib)
  finally show ?thesis unfolding k_def .
qed

lemma smooth_nonneg:
  assumes "rms \<noteq> []" and "\<And>v. v \<in> set rms \<Longrightarrow> 0 \<le> v" and "i < length (smooth rms)"
  shows "0 \<le> smooth rms ! i"
proof -
  from assms(1,3) have i: "i < max (length rms) 10" by (simp add: length_smooth)
  show ?thesis
    unfolding smooth_nth [OF assms(1) i]
    by (intro divide_nonneg_nonneg sum_nonneg) (auto intro: assms(2))
qed

lemma smooth_le_max:
  assumes "rms \<noteq> []" and "\<And>v. v \<in> set rms \<Longrightarrow> 0 \<le> v" and "i < length (smooth rms)"
  shows "smooth rms ! i \<le> Max (set rms)"
proof -
  from assms(1,3) have i: "i < max (length rms) 10" by (simp add: length_smooth)
  define k where "k = i + smooth_offset rms"
  define S where "S = {j. j < length rms \<and> j \<le> k \<and> k - j < 10}"
  have fin: "finite S" unfolding S_def by simp
  have sub: "S \<subseteq> {k - 9..k}" unfolding S_def by auto
  have "card S \<le> card {k - 9..k}" by (rule card_mono) (use sub in auto)
  also have "\<dots> \<le> 10" by simp
  finally have card: "card S \<le> 10" .
  have m0: "0 \<le> Max (set rms)"
  proof -
    from assms(1) obtain v where "v \<in> set rms" by (cases rms) auto
    then have "0 \<le> v" "v \<le> Max (set rms)" by (auto intro: assms(2))
    then show ?thesis by simp
  qed
  have "(\<Sum>j\<in>S. rms ! j) \<le> of_nat (card S) * Max (set rms)"
    by (rule sum_bounded_above) (auto simp: S_def)
  also have "\<dots> \<le> 10 * Max (set rms)"
    using card m0 by (intro mult_right_mono) auto
  finally have "(\<Sum>j\<in>S. rms ! j) / 10 \<le> Max (set rms)" by simp
  then show ?thesis
    unfolding smooth_nth [OF assms(1) i] S_def k_def .
qed

subsection \<open>What a completed analysis stores\<close>

lemma analyze_audio_completes:
  assumes "local_path t = Some path" and "load path = Some (y, sr)" and "hop_length \<le> sr"
  shows "\<exists>m peaks. np_max (librosa_rms y) = Some m \<and>
           find_peaks (smooth (librosa_rms y)) (np_mean (smooth (librosa_rms y)) * 1.5)
                      (sr div hop_length * 5) = Some peaks \<and>
           analyze_audio load t =
             t\<lparr> duration := Some (real (length y) / real sr),
                waveform_data := Some (normalize_rms (librosa_rms y) m),
                highlights := Some (take 3 (sort_highlights
                   (map (make_highlight (smooth (librosa_rms y)) sr (real (length y) / real sr))
                        peaks))) \<rparr>"
proof -
  obtain m where m: "np_max (librosa_rms y) = Some m"
    using np_max_librosa_rms by blast
  from assms(3) have sr: "sr \<noteq> 0" "\<not> sr div hop_length * 5 < 1"
    by (auto simp: hop_length_def)
  then obtain peaks where pk: "find_peaks (smooth (librosa_rms y))
      (np_mean (smooth (librosa_rms y)) * 1.5) (sr div hop_length * 5) = Some peaks"
    by (simp add: find_peaks_def Let_def)
  show ?thesis
    using assms(1,2) m pk sr(1)
    by (simp add: analyze_audio_def analyze_try_def get_duration_def Let_def)
qed

lemma analyze_audio_raised:
  assumes "isl (analyze_try load t)"
  shows "waveform_data (analyze_audio load t) = Some [] \<and>
         highlights (analyze_audio load t) = Some []"
  using assms
  by (cases "analyze_try load t") (simp_all add: analyze_audio_def analysis_failed_def)

text \<open>Every stored highlight was built around an accepted peak of a completed analysis.\<close>

lemma highlight_origin:
  assumes "highlights (analyze_audio load t) = Some hs" and "h \<in> set hs"
  obtains path y sr peaks p where
    "local_path t = Some path" "load path = Some (y, sr)" "hop_length \<le> sr"
    "find_peaks (smooth (librosa_rms y)) (np_mean (smooth (librosa_rms y)) * 1.5)
                (sr div hop_length * 5) = Some peaks"
    "p \<in> set peaks"
    "h = make_highlight (smooth (librosa_rms y)) sr (real (length y) / real sr) p"
proof (cases "isl (analyze_try load t)")
  case True
  from analyze_audio_raised [OF True] assms show ?thesis by simp
next
  case False
  then obtain path where path: "local_path t = Some path"
    by (cases "local_path t") (simp_all add: analyze_try_raises_iff)
  with False obtain ysr where ysr: "load path = Some ysr"
    by (cases "load path") (simp_all add: analyze_try_raises_iff)
  obtain y sr where eq: "ysr = (y, sr)" by (cases ysr)
  from False path ysr eq have sr: "hop_length \<le> sr"
    by (simp add: analyze_try_raises_iff)
  from analyze_audio_completes [where load = load, OF path ysr [unfolded eq] sr]
  obtain m peaks where pk: "find_peaks (smooth (librosa_rms y))
      (np_mean (smooth (librosa_rms y)) * 1.5) (sr div hop_length * 5) = Some peaks"
    and res: "analyze_audio load t =
             t\<lparr> duration := Some (real (length y) / real sr),
                waveform_data := Some (normalize_rms (librosa_rms y) m),
                highlights := Some (take 3 (sort_highlights
                   (map (make_highlight (smooth (librosa_rms y)) sr (real (length y) / real sr))
                        peaks))) \<rparr>"
    by blast
  from res assms(1) have "hs = take 3 (sort_highlights
       (map (make_highlight (smooth (librosa_rms y)) sr (real (length y) / real sr)) peaks))"
    by simp
  with assms(2) have "h \<in> set (sort_highlights
       (map (make_highlight (smooth (librosa_rms y)) sr (real (length y) / real sr)) peaks))"
    by (auto dest: in_set_takeD)
  then obtain p where "p \<in> set peaks"
    "h = make_highlight (smooth (librosa_rms y)) sr (real (length y) / real sr) p"
    by (auto simp: sort_highlights_def)
  with path ysr eq sr pk show ?thesis by (intro that [of path y sr peaks p]) simp_all
qed

lemma librosa_rms_not_Nil: "librosa_rms y \<noteq> []"
  by (simp add: librosa_rms_def n_frames_def)

text \<open>An accepted peak of the smoothed series is a valid index with a positive value.\<close>

lemma accepted_peak_positive:
  assumes "find_peaks (smooth (librosa_rms y)) hmin d = Some peaks" and "p \<in> set peaks"
  shows "p < length (smooth (librosa_rms y)) \<and> 0 < smooth (librosa_rms y) ! p"
proof -
  let ?x = "smooth (librosa_rms y)"
  from find_peaks_plateau [OF assms] have "plateau_peak ?x 1 p" by simp
  then obtain l r where h: "1 \<le> l" "l \<le> p" "p \<le> r" "r + 1 < length ?x"
      "?x ! (l - 1) < ?x ! p"
    by (rule plateau_peak_value)
  from h(1,2,3,4) have "l - 1 < length ?x" by simp
  then have "0 \<le> ?x ! (l - 1)"
    by (intro smooth_nonneg librosa_rms_not_Nil librosa_rms_nonneg)
  with h show ?thesis by simp
qed

lemma frame_rms_le_one:
  assumes "\<And>v. v \<in> set fr \<Longrightarrow> \<bar>v\<bar> \<le> 1"
  shows "frame_rms fr \<le> 1"
proof -
  have "(\<Sum>v\<leftarrow>fr. \<bar>v\<bar> ^ 2) \<le> (\<Sum>v\<leftarrow>fr. 1)"
  proof (rule sum_list_mono)
    fix v assume "v \<in> set fr"
    then have "\<bar>v\<bar> \<le> 1" by (rule assms)
    then show "\<bar>v\<bar> ^ 2 \<le> 1" by (simp add: abs_square_le_1)
  qed
  also have "\<dots> = real (length fr)" by (simp add: sum_list_triv)
  finally have "(\<Sum>v\<leftarrow>fr. \<bar>v\<bar> ^ 2) / real (length fr) \<le> 1"
    by (cases "length fr = 0") (simp_all add: divide_le_eq_1)
  then show ?thesis unfolding frame_rms_def by simp
qed

lemma librosa_rms_le_one:
  assumes "\<And>v. v \<in> set y \<Longrightarrow> \<bar>v\<bar> \<le> 1" and "e \<in> set (librosa_rms y)"
  shows "e \<le> 1"
proof -
  from assms(2) obtain t where e: "e = frame_rms (frame_at y t)"
    by (auto simp: librosa_rms_def)
  have "\<bar>v\<bar> \<le> 1" if "v \<in> set (frame_at y t)" for v
  proof -
    from that have "v \<in> set (padded_signal y)"
      unfolding frame_at_def by (auto dest: in_set_takeD in_set_dropD)
    then have "v = 0 \<or> v \<in> set y" by (auto simp: padded_signal_def)
    then show ?thesis using assms(1) by auto
  qed
  then show ?thesis unfolding e by (rule frame_rms_le_one)
qed

subsection \<open>A worked analysis\<close>

lemma n_frames_example: "n_frames example_signal = 17"
  by (simp add: n_frames_def padded_signal_def example_signal_def frame_length_def hop_length_def)

lemma upt_17: "[0..<17] = [0, 1, 2, 3, 4, 5, 6, 7, 8, 9, 10, 11, 12, 13, 14, 15, 16::nat]"
  by code_simp

lemma sqrt_quarter: "sqrt (1 / 4) = 1 / 2" "sqrt (512 / 2048) = 1 / 2"
  by (rule real_sqrt_unique; simp add: power2_eq_square)+

lemma librosa_rms_example:
  "librosa_rms example_signal = [0, 0, 0, 0, 0, 0, 0, 0, 1 / 2, 1 / 2, 0, 0, 0, 0, 0, 0, 0]"
proof -
  have "librosa_rms example_signal =
      map (\<lambda>t. frame_rms (frame_at example_signal t))
          [0, 1, 2, 3, 4, 5, 6, 7, 8, 9, 10, 11, 12, 13, 14, 15, 16]"
    by (simp only: librosa_rms_def n_frames_example upt_17)
  also have "\<dots> = [0, 0, 0, 0, 0, 0, 0, 0, 1 / 2, 1 / 2, 0, 0, 0, 0, 0, 0, 0]"
    by (simp add: frame_rms_def frame_at_def padded_signal_def example_signal_def
        frame_length_def hop_length_def sum_list_replicate sqrt_quarter)
  finally show ?thesis .
qed

lemma smooth_example:
  "smooth [0, 0, 0, 0, 0, 0, 0, 0, 1 / 2, 1 / 2, 0, 0, 0, 0, 0, 0, 0] =
     [0, 0, 0, 0, 1 / 20, 1 / 10, 1 / 10, 1 / 10, 1 / 10, 1 / 10, 1 / 10, 1 / 10, 1 / 10,
      1 / 10, 1 / 20, 0, 0]"
  by (simp add: smooth_def np_convolve_same_def np_convolve_full_def upt_conv_Cons)

lemma local_maxima_example:
  "local_maxima_1d [0, 0, 0, 0, 1 / 20, 1 / 10, 1 / 10, 1 / 10, 1 / 10, 1 / 10, 1 / 10, 1 / 10,
      1 / 10, 1 / 10, 1 / 20, 0, 0] = [9]"
  by (simp add: local_maxima_1d_def local_maxima_from.simps look_ahead.simps)

lemma find_peaks_example:
  "find_peaks [0, 0, 0, 0, 1 / 20, 1 / 10, 1 / 10, 1 / 10, 1 / 10, 1 / 10, 1 / 10, 1 / 10,
      1 / 10, 1 / 10, 1 / 20, 0, 0]
     (np_mean [0, 0, 0, 0, 1 / 20, 1 / 10, 1 / 10, 1 / 10, 1 / 10, 1 / 10, 1 / 10, 1 / 10,
      1 / 10, 1 / 10, 1 / 20, 0, 0] * 1.5) (44100 div hop_length * 5) = Some [9]"
  unfolding find_peaks_def local_maxima_example
  by (simp add: np_mean_def hop_length_def select_by_height_def select_by_peak_distance_def
      visit_peak_def clear_later.simps)

lemma np_max_example:
  "np_max [0, 0, 0, 0, 0, 0, 0, 0, 1 / 2, 1 / 2, 0, 0, 0, 0, 0, 0, 0] = Some (1 / 2)"
  by simp

lemma length_example_signal: "length example_signal = 16384"
  by (simp add: example_signal_def)

lemma analyze_audio_example:
  "analyze_audio example_load example_track =
     example_track\<lparr> duration := Some (16384 / 44100),
        waveform_data := Some [0, 0, 0, 0, 0, 0, 0, 0, 1, 1, 0, 0, 0, 0, 0, 0, 0],
        highlights := Some [example_highlight] \<rparr>"
proof -
  have lp: "local_path example_track = Some ''/tmp/autodj/t1.mp3''"
    by (simp add: example_track_def)
  have ld: "example_load ''/tmp/autodj/t1.mp3'' = Some (example_signal, 44100)"
    by (simp add: example_load_def)
  have hl: "make_highlight
       [0, 0, 0, 0, 1 / 20, 1 / 10, 1 / 10, 1 / 10, 1 / 10, 1 / 10, 1 / 10, 1 / 10,
        1 / 10, 1 / 10, 1 / 20, 0, 0] 44100 (16384 / 44100) 9 = example_highlight"
    by (simp add: make_highlight_def frames_to_time_def hop_length_def example_highlight_def)
  have sr: "hop_length \<le> 44100" by (simp add: hop_length_def)
  from analyze_audio_completes [where load = example_load, OF lp ld sr]
  obtain m peaks where m: "np_max (librosa_rms example_signal) = Some m"
    and pk: "find_peaks (smooth (librosa_rms example_signal))
              (np_mean (smooth (librosa_rms example_signal)) * 1.5)
              (44100 div hop_length * 5) = Some peaks"
    and res: "analyze_audio example_load example_track =
       example_track\<lparr> duration := Some (real (length example_signal) / real 44100),
          waveform_data := Some (normalize_rms (librosa_rms example_signal) m),
          highlights := Some (take 3 (sort_highlights
             (map (make_highlight (smooth (librosa_rms example_signal)) 44100
                    (real (length example_signal) / real 44100)) peaks))) \<rparr>"
    by blast
  from m have m': "m = 1 / 2"
    unfolding librosa_rms_example np_max_example by simp
  from pk have pk': "peaks = [9]"
    unfolding librosa_rms_example smooth_example find_peaks_example by simp
  show ?thesis
    unfolding res m' pk' librosa_rms_example smooth_example length_example_signal
    using hl by (simp add: normalize_rms_def sort_highlights_def)
qed

subsection \<open>The envelope\<close>

lemma frame_rms_zero:
  assumes "\<And>v. v \<in> set fr \<Longrightarrow> v = 0"
  shows "frame_rms fr = 0"
proof -
  have "map (\<lambda>v. \<bar>v\<bar> ^ 2) fr = map (\<lambda>v. 0) fr"
    by (rule map_cong) (auto dest: assms)
  then have "(\<Sum>v\<leftarrow>fr. \<bar>v\<bar> ^ 2) = 0" by (simp only: sum_list_0)
  then show ?thesis unfolding frame_rms_def by simp
qed

lemma librosa_rms_silent:
  assumes "\<And>v. v \<in> set y \<Longrightarrow> v = 0" and "e \<in> set (librosa_rms y)"
  shows "e = 0"
proof -
  from assms(2) obtain t where e: "e = frame_rms (frame_at y t)"
    by (auto simp: librosa_rms_def)
  have "v = 0" if "v \<in> set (frame_at y t)" for v
  proof -
    from that have "v \<in> set (padded_signal y)"
      unfolding frame_at_def by (auto dest: in_set_takeD in_set_dropD)
    then have "v = 0 \<or> v \<in> set y" by (auto simp: padded_signal_def)
    then show ?thesis using assms(1) by auto
  qed
  then show ?thesis unfolding e by (rule frame_rms_zero)
qed

lemma normalize_rms_max:
  assumes "np_max rms = Some m" and "\<And>v. v \<in> set rms \<Longrightarrow> 0 \<le> v"
    and "v \<in> set rms" and "v \<noteq> 0"
  shows "Max (set (normalize_rms rms m)) = 1"
proof -
  have m: "m = Max (set rms)" using assms(1) by (rule np_max_eq_Max)
  have "0 < v" using assms(2) [OF assms(3)] assms(4) by simp
  moreover have "v \<le> m" unfolding m using assms(3) by simp
  ultimately have mpos: "0 < m" by simp
  have min: "m \<in> set rms" unfolding m using assms(3) by (intro Max_in) auto
  have eq: "normalize_rms rms m = map (\<lambda>v. v / m) rms"
    using mpos by (simp add: normalize_rms_def)
  show ?thesis
  proof (rule Max_eqI)
    show "finite (set (normalize_rms rms m))" by simp
    show "1 \<in> set (normalize_rms rms m)"
      unfolding eq using min mpos by (auto simp: image_iff intro!: bexI [of _ m])
    fix e assume "e \<in> set (normalize_rms rms m)"
    then obtain w where w: "w \<in> set rms" "e = w / m" unfolding eq by auto
    have "w \<le> m" unfolding m using w(1) by simp
    with mpos show "e \<le> 1" unfolding w(2) by simp
  qed
qed

text \<open>
  Claim C6. For a track whose file loads with samples \<open>y\<close> and a sample rate of at
  least the hop length (so that the analysis runs to its end), the stored waveform has
  one value per frame; if some frame energy is non-zero its maximum is 1, and if every
  sample is zero it consists of zeros only.
\<close>

theorem envelope_normalized:
  assumes "local_path t = Some path" and "load path = Some (y, sr)" and "hop_length \<le> sr"
  shows "\<exists>env. waveform_data (analyze_audio load t) = Some env \<and>
           length env = n_frames y \<and>
           ((\<exists>v\<in>set (librosa_rms y). v \<noteq> 0) \<longrightarrow> Max (set env) = 1) \<and>
           ((\<forall>v\<in>set y. v = 0) \<longrightarrow> (\<forall>e\<in>set env. e = 0))"
proof -
  from analyze_audio_completes [where load = load, OF assms]
  obtain m peaks where m: "np_max (librosa_rms y) = Some m"
    and res: "analyze_audio load t =
             t\<lparr> duration := Some (real (length y) / real sr),
                waveform_data := Some (normalize_rms (librosa_rms y) m),
                highlights := Some (take 3 (sort_highlights
                   (map (make_highlight (smooth (librosa_rms y)) sr (real (length y) / real sr))
                        peaks))) \<rparr>"
    by blast
  let ?env = "normalize_rms (librosa_rms y) m"
  have w: "waveform_data (analyze_audio load t) = Some ?env" unfolding res by simp
  have len: "length ?env = n_frames y"
    by (simp add: normalize_rms_def length_librosa_rms)
  have nz: "Max (set ?env) = 1" if "\<exists>v\<in>set (librosa_rms y). v \<noteq> 0"
  proof -
    from that obtain v where "v \<in> set (librosa_rms y)" "v \<noteq> 0" by blast
    with m show ?thesis by (intro normalize_rms_max [of _ _ v] librosa_rms_nonneg)
  qed
  have z: "\<forall>e\<in>set ?env. e = 0" if "\<forall>v\<in>set y. v = 0"
  proof -
    have rz: "e = 0" if "e \<in> set (librosa_rms y)" for e
      by (rule librosa_rms_silent [OF _ that]) (use \<open>\<forall>v\<in>set y. v = 0\<close> in blast)
    then show ?thesis by (auto simp: normalize_rms_def)
  qed
  from w len nz z show ?thesis by blast
qed

theorem envelope_normalized_witness:
  "(\<exists>v\<in>set (librosa_rms example_signal). v \<noteq> 0) \<and>
   (\<exists>env. waveform_data (analyze_audio example_load example_track) = Some env \<and>
          length env = 17 \<and> Max (set env) = 1) \<and>
   set (replicate 2048 (0::real)) = {0} \<and>
   (\<exists>env. waveform_data (analyze_audio (\<lambda>p. Some (replicate 2048 0, 44100)) example_track)
            = Some env \<and> length env = 3 \<and> set env = {0})"
proof -
  have lp: "local_path example_track = Some ''/tmp/autodj/t1.mp3''"
    by (simp add: example_track_def)
  have ld: "example_load ''/tmp/autodj/t1.mp3'' = Some (example_signal, 44100)"
    by (simp add: example_load_def)
  have sr: "hop_length \<le> 44100" by (simp add: hop_length_def)
  have nz: "\<exists>v\<in>set (librosa_rms example_signal). v \<noteq> 0"
    unfolding librosa_rms_example by simp
  from envelope_normalized [where load = example_load, OF lp ld sr] nz
  have a: "\<exists>env. waveform_data (analyze_audio example_load example_track) = Some env \<and>
          length env = 17 \<and> Max (set env) = 1"
    by (auto simp: n_frames_example)
  have z: "\<forall>v\<in>set (replicate 2048 (0::real)). v = 0" by simp
  have ld0: "(\<lambda>p. Some (replicate 2048 (0::real), 44100::nat)) ''/tmp/autodj/t1.mp3''
      = Some (replicate 2048 0, 44100)" by simp
  from envelope_normalized [where load = "\<lambda>p. Some (replicate 2048 0, 44100)", OF lp ld0 sr] z
  obtain env where e: "waveform_data (analyze_audio (\<lambda>p. Some (replicate 2048 0, 44100))
        example_track) = Some env" "length env = n_frames (replicate 2048 0)"
      "\<forall>e\<in>set env. e = 0"
    by blast
  have l3: "length env = 3" using e(2) by (simp add: n_frames_eq)
  then have "env \<noteq> []" by auto
  with e(3) have "set env = {0}" by (cases env) auto
  with e(1) l3 have b: "\<exists>env. waveform_data (analyze_audio (\<lambda>p. Some (replicate 2048 0, 44100))
        example_track) = Some env \<and> length env = 3 \<and> set env = {0}"
    by blast
  from nz a b show ?thesis by simp
qed

subsection \<open>Intensity of a highlight\<close>

lemma frames_to_time_inj: "0 < sr \<Longrightarrow> frames_to_time p sr = frames_to_time q sr \<Longrightarrow> p = q"
  by (simp add: frames_to_time_def hop_length_def)

lemma smooth_normalized_example:
  "smooth [0, 0, 0, 0, 0, 0, 0, 0, 1, 1, 0, 0, 0, 0, 0, 0, 0] ! 9 = 1 / 5"
  by (simp add: smooth_def np_convolve_same_def np_convolve_full_def upt_conv_Cons)

text \<open>
  Claim C4 as stated fails: in the worked analysis the only highlight has its peak at
  frame 9 and intensity 1/10, while the moving average of the normalised envelope
  (the stored waveform) is 1/5 at that frame. The code smooths the raw RMS series.
\<close>

theorem intensity_normalized_counterexample:
  "highlights (analyze_audio example_load example_track) = Some [example_highlight] \<and>
   peak_time example_highlight = frames_to_time 9 44100 \<and>
   intensity example_highlight = 1 / 10 \<and>
   waveform_data (analyze_audio example_load example_track) =
     Some [0, 0, 0, 0, 0, 0, 0, 0, 1, 1, 0, 0, 0, 0, 0, 0, 0] \<and>
   smooth [0, 0, 0, 0, 0, 0, 0, 0, 1, 1, 0, 0, 0, 0, 0, 0, 0] ! 9 = 1 / 5"
  by (simp add: analyze_audio_example smooth_normalized_example example_highlight_def
      frames_to_time_def hop_length_def)

text \<open>
  Claim C4, amended. Every highlight stored by the analysis belongs to a frame \<open>p\<close> of
  the smoothed raw RMS series of the loaded signal: its peak time is the time of frame
  \<open>p\<close>, and its intensity is the value of that series at \<open>p\<close>, which is positive and at
  most the largest frame RMS; it is at most 1 whenever no sample exceeds 1 in
  absolute value.
\<close>

theorem highlight_intensity_smoothed_rms:
  assumes "highlights (analyze_audio load t) = Some hs" and "h \<in> set hs"
  shows "\<exists>path y sr p. local_path t = Some path \<and> load path = Some (y, sr) \<and>
           p < length (smooth (librosa_rms y)) \<and>
           peak_time h = frames_to_time p sr \<and>
           intensity h = smooth (librosa_rms y) ! p \<and>
           0 < intensity h \<and> intensity h \<le> Max (set (librosa_rms y)) \<and>
           ((\<forall>v\<in>set y. \<bar>v\<bar> \<le> 1) \<longrightarrow> intensity h \<le> 1)"
proof -
  from assms obtain path y sr peaks p where
    o: "local_path t = Some path" "load path = Some (y, sr)" "hop_length \<le> sr"
    "find_peaks (smooth (librosa_rms y)) (np_mean (smooth (librosa_rms y)) * 1.5)
                (sr div hop_length * 5) = Some peaks"
    "p \<in> set peaks"
    "h = make_highlight (smooth (librosa_rms y)) sr (real (length y) / real sr) p"
    by (rule highlight_origin)
  let ?x = "smooth (librosa_rms y)"
  from accepted_peak_positive [OF o(4,5)] have p: "p < length ?x" "0 < ?x ! p" by simp_all
  have pt: "peak_time h = frames_to_time p sr" and it: "intensity h = ?x ! p"
    unfolding o(6) by (simp_all add: make_highlight_def Let_def)
  have ub: "?x ! p \<le> Max (set (librosa_rms y))"
    by (intro smooth_le_max librosa_rms_not_Nil librosa_rms_nonneg p(1))
  have one: "intensity h \<le> 1" if "\<forall>v\<in>set y. \<bar>v\<bar> \<le> 1"
  proof -
    have "Max (set (librosa_rms y)) \<in> set (librosa_rms y)"
      by (intro Max_in) (simp_all add: librosa_rms_not_Nil)
    then have "Max (set (librosa_rms y)) \<le> 1"
      by (rule librosa_rms_le_one [rotated]) (use that in blast)
    with ub it show ?thesis by simp
  qed
  from o(1,2) p pt it ub one show ?thesis by (auto simp: it)
qed

theorem highlight_intensity_smoothed_rms_witness:
  "highlights (analyze_audio example_load example_track) = Some [example_highlight] \<and>
   example_highlight \<in> set [example_highlight] \<and>
   intensity example_highlight = smooth (librosa_rms example_signal) ! 9 \<and>
   0 < intensity example_highlight \<and>
   intensity example_highlight \<le> Max (set (librosa_rms example_signal)) \<and>
   set example_signal = {0, 1} \<and>
   intensity example_highlight \<le> 1"
proof -
  have hs: "highlights (analyze_audio example_load example_track) = Some [example_highlight]"
    by (simp add: analyze_audio_example)
  have mem: "example_highlight \<in> set [example_highlight]" by simp
  have sig: "set example_signal = {0, 1}"
    by (auto simp: example_signal_def)
  from highlight_intensity_smoothed_rms [OF hs mem]
  obtain path y sr p where o: "local_path example_track = Some path"
    "example_load path = Some (y, sr)"
    "peak_time example_highlight = frames_to_time p sr"
    "intensity example_highlight = smooth (librosa_rms y) ! p"
    "0 < intensity example_highlight"
    "intensity example_highlight \<le> Max (set (librosa_rms y))"
    "(\<forall>v\<in>set y. \<bar>v\<bar> \<le> 1) \<longrightarrow> intensity example_highlight \<le> 1"
    by blast
  from o(2) have ys: "y = example_signal" "sr = 44100"
    by (auto simp: example_load_def split: if_splits)
  have "peak_time example_highlight = frames_to_time 9 44100"
    by (simp add: example_highlight_def frames_to_time_def hop_length_def)
  with o(3) ys have "p = 9" by (auto dest: frames_to_time_inj [rotated])
  moreover from o(7) sig ys have "intensity example_highlight \<le> 1" by simp
  ultimately show ?thesis using o ys hs mem sig by simp
qed

subsection \<open>Order of analysed tracks in a mix\<close>

lemma np_mean_pos:
  assumes "xs \<noteq> []" and "\<And>x. x \<in> set xs \<Longrightarrow> 0 < x"
  shows "0 < np_mean xs"
proof -
  from assms(1) obtain x xs' where xs: "xs = x # xs'" by (cases xs) auto
  have "0 < x" using assms(2) xs by simp
  moreover have "0 \<le> sum_list xs'"
    by (rule sum_list_nonneg) (use assms(2) xs in force)
  ultimately have "0 < sum_list xs" unfolding xs by simp
  then show ?thesis unfolding np_mean_def using assms(1) by simp
qed

lemma analysed_intensity_pos:
  assumes "highlights (analyze_audio load t) = Some hs" and "h \<in> set hs"
  shows "0 < intensity h"
proof -
  from assms obtain path y sr peaks p where
    o: "find_peaks (smooth (librosa_rms y)) (np_mean (smooth (librosa_rms y)) * 1.5)
                (sr div hop_length * 5) = Some peaks"
    "p \<in> set peaks"
    "h = make_highlight (smooth (librosa_rms y)) sr (real (length y) / real sr) p"
    by (rule highlight_origin)
  from accepted_peak_positive [OF o(1,2)] show ?thesis
    unfolding o(3) by (simp add: make_highlight_def Let_def)
qed

lemma analysed_height:
  assumes "highlights (analyze_audio load t) = Some hs" and "h \<in> set hs"
  shows "\<exists>path y sr. local_path t = Some path \<and> load path = Some (y, sr) \<and>
           np_mean (smooth (librosa_rms y)) * 1.5 \<le> intensity h"
proof -
  from assms obtain path y sr peaks p where
    o: "local_path t = Some path" "load path = Some (y, sr)" "hop_length \<le> sr"
    "find_peaks (smooth (librosa_rms y)) (np_mean (smooth (librosa_rms y)) * 1.5)
                (sr div hop_length * 5) = Some peaks"
    "p \<in> set peaks"
    "h = make_highlight (smooth (librosa_rms y)) sr (real (length y) / real sr) p"
    by (rule highlight_origin)
  from find_peaks_subset [OF o(4,5)] o(1,2) show ?thesis
    unfolding o(6) by (simp add: make_highlight_def Let_def)
qed

lemma mean_intensity_analysed:
  "mean_intensity (analyze_audio load t) =
     0 \<longleftrightarrow> highlights (analyze_audio load t) = Some []"
proof -
  obtain hs where hs: "highlights (analyze_audio load t) = Some hs"
    using highlights_analyze_audio [of load t] by blast
  show ?thesis
  proof (cases "hs = []")
    case True
    with hs show ?thesis by (simp add: mean_intensity_def)
  next
    case False
    have "0 < np_mean (map intensity hs)"
      by (rule np_mean_pos) (use False analysed_intensity_pos [OF hs] in auto)
    with hs False show ?thesis by (simp add: mean_intensity_def)
  qed
qed

lemma mean_intensity_analysed_nonneg: "0 \<le> mean_intensity (analyze_audio load t)"
proof -
  obtain hs where hs: "highlights (analyze_audio load t) = Some hs"
    using highlights_analyze_audio [of load t] by blast
  show ?thesis
  proof (cases "hs = []")
    case True
    with hs show ?thesis by (simp add: mean_intensity_def)
  next
    case False
    have "0 < np_mean (map intensity hs)"
      by (rule np_mean_pos) (use False analysed_intensity_pos [OF hs] in auto)
    with hs False show ?thesis by (simp add: mean_intensity_def)
  qed
qed

text \<open>
  Claim C10. Every highlight stored by the analysis has a strictly positive intensity,
  which is at least 1.5 times the mean of the smoothed RMS series. Hence, when the
  assembler sorts analysed tracks, no track with an empty highlight list stands before a
  track with a non-empty one.
\<close>

theorem analysed_tracks_order:
  "(\<forall>t hs h. highlights (analyze_audio load t) = Some hs \<and> h \<in> set hs \<longrightarrow>
      0 < intensity h \<and>
      (\<exists>path y sr. local_path t = Some path \<and> load path = Some (y, sr) \<and>
         np_mean (smooth (librosa_rms y)) * 1.5 \<le> intensity h)) \<and>
   (\<forall>i j. i < j \<and> j < length ts \<and>
      highlights (sort_tracks (map (analyze_audio load) ts) ! j) \<noteq> Some [] \<longrightarrow>
      highlights (sort_tracks (map (analyze_audio load) ts) ! i) \<noteq> Some [])"
proof (intro conjI allI impI)
  fix t hs h
  assume a: "highlights (analyze_audio load t) = Some hs \<and> h \<in> set hs"
  then show "0 < intensity h" using analysed_intensity_pos by blast
  from a show "\<exists>path y sr. local_path t = Some path \<and> load path = Some (y, sr) \<and>
         np_mean (smooth (librosa_rms y)) * 1.5 \<le> intensity h"
    using analysed_height by blast
next
  fix i j
  let ?s = "sort_tracks (map (analyze_audio load) ts)"
  assume a: "i < j \<and> j < length ts \<and> highlights (?s ! j) \<noteq> Some []"
  have len: "length ?s = length ts" by (simp add: sort_tracks_def)
  have set: "set ?s = analyze_audio load ` set ts" by (simp add: sort_tracks_def)
  from a len have "?s ! j \<in> set ?s" "?s ! i \<in> set ?s" by simp_all
  then obtain tj ti where tj: "?s ! j = analyze_audio load tj" and ti: "?s ! i = analyze_audio load ti"
    unfolding set by blast
  have "sorted (map (\<lambda>t. - mean_intensity t) ?s)"
    unfolding sort_tracks_def by (rule sorted_sort_key)
  then have "map (\<lambda>t. - mean_intensity t) ?s ! i \<le> map (\<lambda>t. - mean_intensity t) ?s ! j"
    by (rule sorted_nth_mono) (use a len in simp_all)
  then have le: "mean_intensity (?s ! j) \<le> mean_intensity (?s ! i)"
    using a len by simp
  from a have "mean_intensity (?s ! j) \<noteq> 0"
    unfolding tj by (simp add: mean_intensity_analysed)
  moreover have "0 \<le> mean_intensity (?s ! j)"
    unfolding tj by (rule mean_intensity_analysed_nonneg)
  ultimately have "0 < mean_intensity (?s ! i)" using le by simp
  then show "highlights (?s ! i) \<noteq> Some []"
    unfolding ti using mean_intensity_analysed [of load ti] by simp
qed

lemma analyze_audio_unreadable:
  "analyze_audio example_load unreadable_track =
     unreadable_track\<lparr> waveform_data := Some [], highlights := Some [] \<rparr>"
  by (simp add: analyze_audio_def analyze_try_def unreadable_track_def example_load_def
      analysis_failed_def)

lemma sort_tracks_example:
  "sort_tracks (map (analyze_audio example_load) [unreadable_track, example_track, example_track])
     = [analyze_audio example_load example_track, analyze_audio example_load example_track,
        analyze_audio example_load unreadable_track]"
proof -
  have k1: "mean_intensity (analyze_audio example_load example_track) = 1 / 10"
    by (simp add: analyze_audio_example mean_intensity_def np_mean_def example_highlight_def)
  have k0: "mean_intensity (analyze_audio example_load unreadable_track) = 0"
    by (simp add: analyze_audio_unreadable mean_intensity_def)
  show ?thesis by (simp add: sort_tracks_def k0 k1)
qed

theorem analysed_tracks_order_witness:
  "highlights (analyze_audio example_load example_track) = Some [example_highlight] \<and>
   example_highlight \<in> set [example_highlight] \<and>
   0 < intensity example_highlight \<and>
   (0::nat) < 1 \<and> (1::nat) < length [unreadable_track, example_track, example_track] \<and>
   highlights (sort_tracks (map (analyze_audio example_load)
       [unreadable_track, example_track, example_track]) ! 1) = Some [example_highlight] \<and>
   highlights (sort_tracks (map (analyze_audio example_load)
       [unreadable_track, example_track, example_track]) ! 0) \<noteq> Some [] \<and>
   highlights (sort_tracks (map (analyze_audio example_load)
       [unreadable_track, example_track, example_track]) ! 2) = Some []"
proof -
  let ?ts = "[unreadable_track, example_track, example_track]"
  have hs: "highlights (analyze_audio example_load example_track) = Some [example_highlight]"
    by (simp add: analyze_audio_example)
  have h1: "highlights (sort_tracks (map (analyze_audio example_load) ?ts) ! 1)
      = Some [example_highlight]"
    unfolding sort_tracks_example by (simp add: hs)
  have h2: "highlights (sort_tracks (map (analyze_audio example_load) ?ts) ! 2) = Some []"
    unfolding sort_tracks_example by (simp add: analyze_audio_unreadable)
  note inst = analysed_tracks_order [of example_load ?ts]
  from inst have "highlights (analyze_audio example_load example_track) = Some [example_highlight]
      \<and> example_highlight \<in> set [example_highlight] \<longrightarrow> 0 < intensity example_highlight"
    by blast
  with hs have pos: "0 < intensity example_highlight" by simp
  from h1 have ne: "highlights (sort_tracks (map (analyze_audio example_load) ?ts) ! 1) \<noteq> Some []"
    by simp
  from inst have "(0::nat) < 1 \<and> 1 < length ?ts \<and>
      highlights (sort_tracks (map (analyze_audio example_load) ?ts) ! 1) \<noteq> Some [] \<longrightarrow>
      highlights (sort_tracks (map (analyze_audio example_load) ?ts) ! 0) \<noteq> Some []"
    by blast
  with ne have h0: "highlights (sort_tracks (map (analyze_audio example_load) ?ts) ! 0) \<noteq> Some []"
    by simp
  from hs pos h1 h0 h2 show ?thesis by simp
qed

subsection \<open>Bounds of a highlight\<close>

text \<open>
  A series of fewer than ten frames is smoothed to ten values. The lemmas below show that
  an accepted peak still lies at a frame of the signal.
\<close>

lemma smooth_short_full_window:
  assumes "rms \<noteq> []" and "length rms < 10" and "i < 10"
    and "length rms - 1 \<le> i + smooth_offset rms" and "i + smooth_offset rms \<le> 9"
  shows "smooth rms ! i = (\<Sum>j<length rms. rms ! j) / 10"
proof -
  have i: "i < max (length rms) 10" using assms(3) by simp
  have "{j. j < length rms \<and> j \<le> i + smooth_offset rms \<and> i + smooth_offset rms - j < 10}
      = {..<length rms}"
    using assms(4,5) by auto
  then show ?thesis unfolding smooth_nth [OF assms(1) i] by simp
qed

lemma smooth_short_tail_mono:
  assumes "rms \<noteq> []" and "\<And>v. v \<in> set rms \<Longrightarrow> 0 \<le> v"
    and "length rms - 1 \<le> i + smooth_offset rms" and "i \<le> i'" and "i' < max (length rms) 10"
  shows "smooth rms ! i' \<le> smooth rms ! i"
proof -
  let ?s = "smooth_offset rms"
  let ?W = "\<lambda>i. {j. j < length rms \<and> j \<le> i + ?s \<and> i + ?s - j < 10}"
  have i: "i < max (length rms) 10" using assms(4,5) by simp
  have sub: "?W i' \<subseteq> ?W i" using assms(3,4) by auto
  have "(\<Sum>j\<in>?W i'. rms ! j) \<le> (\<Sum>j\<in>?W i. rms ! j)"
    by (rule sum_mono2) (use sub assms(2) in auto)
  then show ?thesis
    unfolding smooth_nth [OF assms(1) i] smooth_nth [OF assms(1) assms(5)] by simp
qed

lemma plateau_sum_bound:
  assumes "\<And>i. i < length x \<Longrightarrow> 0 \<le> x ! i" and "l \<le> r" and "r < length x"
    and "\<And>k. l \<le> k \<Longrightarrow> k \<le> r \<Longrightarrow> x ! k = c"
  shows "real (r - l + 1) * c \<le> sum_list x"
proof -
  have "real (r - l + 1) * c = (\<Sum>k\<in>{l..r}. c)" using assms(2) by simp
  also have "\<dots> = (\<Sum>k\<in>{l..r}. x ! k)"
    by (rule sum.cong) (use assms(4) in auto)
  also have "\<dots> \<le> (\<Sum>k\<in>{0..<length x}. x ! k)"
    by (rule sum_mono2) (use assms(1,3) in auto)
  also have "\<dots> = sum_list x" by (simp add: sum_list_sum_nth)
  finally show ?thesis .
qed

lemma short_series_peak_bound:
  assumes ne: "rms \<noteq> []" and short: "length rms < 10"
    and nonneg: "\<And>v. v \<in> set rms \<Longrightarrow> 0 \<le> v"
    and pk: "plateau_peak (smooth rms) 1 p"
    and ht: "np_mean (smooth rms) * 1.5 \<le> smooth rms ! p"
  shows "p < length rms"
proof (rule ccontr)
  assume "\<not> p < length rms"
  then have pM: "length rms \<le> p" by simp
  let ?x = "smooth rms"
  let ?M = "length rms"
  let ?s = "smooth_offset rms"
  have lenx: "length ?x = 10" using ne short by (simp add: length_smooth)
  have M1: "1 \<le> ?M" using ne by (cases rms) auto
  have s: "?s = (?M - 1) div 2" using short by (simp add: smooth_offset_def)
  have xnn: "0 \<le> ?x ! i" if "i < length ?x" for i
    using ne nonneg that by (rule smooth_nonneg)
  from pk obtain l r where h: "1 \<le> l" "l \<le> p" "p \<le> r" "r + 1 < length ?x"
      "p = (l + r) div 2" "?x ! (l - 1) < ?x ! p" "?x ! (r + 1) < ?x ! p"
      "\<And>k. l \<le> k \<Longrightarrow> k \<le> r \<Longrightarrow> ?x ! k = ?x ! p"
    by (rule plateau_peak_value) blast
  define a where "a = ?M - 1 - ?s"
  have a_le_p: "a \<le> p" unfolding a_def using pM by simp
  have a_s: "?M - 1 \<le> a + ?s" unfolding a_def by simp
  have s_le: "?s \<le> ?M - 1" unfolding s by simp
  have as_eq: "a + ?s = ?M - 1" unfolding a_def using s_le by simp
  text \<open>The plateau starts at or before index \<open>a\<close>.\<close>
  have l_le_a: "l \<le> a"
  proof (rule ccontr)
    assume "\<not> l \<le> a"
    then have "a \<le> l - 1" by simp
    then have "?M - 1 \<le> (l - 1) + ?s" using a_s by simp
    moreover have "l - 1 \<le> l" by simp
    moreover have "l < max ?M 10" using h(2,3,4) lenx by simp
    ultimately have "?x ! l \<le> ?x ! (l - 1)"
      by (intro smooth_short_tail_mono ne nonneg)
    moreover have "?x ! l = ?x ! p" using h(8) [of l] h(2,3) by simp
    ultimately show False using h(6) by simp
  qed
  text \<open>The plateau extends beyond the indices that see the whole series.\<close>
  have r_ge: "9 - ?s \<le> r"
  proof (rule ccontr)
    assume "\<not> 9 - ?s \<le> r"
    then have r1: "r + 1 \<le> 9 - ?s" by simp
    have "a \<le> r + 1" using a_le_p h(3) by simp
    have f1: "?x ! (r + 1) = (\<Sum>j<?M. rms ! j) / 10"
      by (rule smooth_short_full_window [OF ne short])
         (use r1 \<open>a \<le> r + 1\<close> as_eq short in \<open>simp_all\<close>)
    have "a \<le> 9 - ?s" using \<open>a \<le> r + 1\<close> r1 by simp
    have f2: "?x ! a = (\<Sum>j<?M. rms ! j) / 10"
      by (rule smooth_short_full_window [OF ne short])
         (use \<open>a \<le> 9 - ?s\<close> as_eq short in \<open>simp_all\<close>)
    have "?x ! a = ?x ! p" using h(8) [of a] l_le_a a_le_p h(3) by simp
    with f1 f2 h(7) show False by simp
  qed
  have pos: "0 < ?x ! p"
  proof -
    have "0 \<le> ?x ! (l - 1)" using h(2,3,4) by (intro xnn) simp
    with h(6) show ?thesis by simp
  qed
  have cnt1: "11 - ?M \<le> r - l + 1"
    using r_ge l_le_a s_le M1 short unfolding a_def by arith
  have cnt2: "2 * ?s + 3 \<le> r - l + 1"
  proof -
    from h(5) have "2 * p \<le> l + r" by simp
    moreover have "?M \<le> p" by (rule pM)
    moreover have "l + ?s \<le> ?M - 1" using l_le_a s_le unfolding a_def by arith
    ultimately show ?thesis using M1 by arith
  qed
  have cnt: "7 \<le> r - l + 1"
  proof (cases "?M \<le> 4")
    case True
    with cnt1 show ?thesis by simp
  next
    case False
    then have "2 \<le> ?s" unfolding s by simp
    with cnt2 show ?thesis by simp
  qed
  have "real (r - l + 1) * ?x ! p \<le> sum_list ?x"
  proof (rule plateau_sum_bound)
    show "0 \<le> ?x ! i" if "i < length ?x" for i using that by (rule xnn)
    show "l \<le> r" using h(2,3) by simp
    show "r < length ?x" using h(4) by simp
    show "?x ! k = ?x ! p" if "l \<le> k" "k \<le> r" for k using that by (rule h(8))
  qed
  moreover have "7 * ?x ! p \<le> real (r - l + 1) * ?x ! p"
    using cnt pos by (intro mult_right_mono) simp_all
  ultimately have "7 * ?x ! p \<le> sum_list ?x" by simp
  moreover from ht have "sum_list ?x * 1.5 \<le> 10 * ?x ! p"
    unfolding np_mean_def lenx by simp
  ultimately show False using pos by simp
qed

lemma accepted_peak_frame:
  assumes "find_peaks (smooth (librosa_rms y)) (np_mean (smooth (librosa_rms y)) * 1.5) d
             = Some peaks"
    and "p \<in> set peaks"
  shows "p < n_frames y"
proof -
  let ?rms = "librosa_rms y"
  from find_peaks_plateau [OF assms]
  have pk: "plateau_peak (smooth ?rms) 1 p"
    and ht: "np_mean (smooth ?rms) * 1.5 \<le> smooth ?rms ! p" by simp_all
  show ?thesis
  proof (cases "length ?rms < 10")
    case True
    have "p < length ?rms"
      using librosa_rms_not_Nil True librosa_rms_nonneg pk ht
      by (rule short_series_peak_bound)
    then show ?thesis by (simp add: length_librosa_rms)
  next
    case False
    then have len: "length (smooth ?rms) = length ?rms"
      by (simp add: length_smooth librosa_rms_not_Nil)
    from pk obtain l r where "p \<le> r" "r + 1 < length (smooth ?rms)"
      by (rule plateau_peak_value)
    then show ?thesis unfolding len by (simp add: length_librosa_rms)
  qed
qed

lemma peak_time_le_duration:
  assumes "p < n_frames y" and "0 < sr"
  shows "frames_to_time p sr \<le> real (length y) / real sr"
proof -
  from assms(1) have "p \<le> length y div 1024" by (simp add: n_frames_eq)
  then have "p * 1024 \<le> length y div 1024 * 1024" by simp
  also have "\<dots> \<le> length y" by simp
  finally have "real (p * 1024) \<le> real (length y)" by (rule of_nat_mono)
  then show ?thesis
    unfolding frames_to_time_def hop_length_def using assms(2)
    by (simp add: divide_right_mono)
qed

text \<open>
  Claim C5. Every highlight stored by the analysis satisfies
  \<open>0 \<le> start \<le> peak_time \<le> end \<le> duration\<close> and \<open>end - start \<le> 20\<close>, where the
  duration is the one stored on the track; the window is \<open>peak_time\<close> minus and plus 10
  seconds, clamped to 0 and to the duration.
\<close>

theorem highlight_bounds:
  assumes "highlights (analyze_audio load t) = Some hs" and "h \<in> set hs"
  shows "\<exists>d. duration (analyze_audio load t) = Some d \<and>
           0 \<le> start h \<and> start h \<le> peak_time h \<and> peak_time h \<le> end_s h \<and>
           end_s h \<le> d \<and> end_s h - start h \<le> 20 \<and>
           start h = max 0 (peak_time h - 10) \<and> end_s h = min d (peak_time h + 10)"
proof -
  from assms obtain path y sr peaks p where
    o: "local_path t = Some path" "load path = Some (y, sr)" "hop_length \<le> sr"
    "find_peaks (smooth (librosa_rms y)) (np_mean (smooth (librosa_rms y)) * 1.5)
                (sr div hop_length * 5) = Some peaks"
    "p \<in> set peaks"
    "h = make_highlight (smooth (librosa_rms y)) sr (real (length y) / real sr) p"
    by (rule highlight_origin)
  let ?d = "real (length y) / real sr"
  from analyze_audio_completes [where load = load, OF o(1,2,3)]
  have d: "duration (analyze_audio load t) = Some ?d" by auto
  have sr: "0 < sr" using o(3) by (simp add: hop_length_def)
  have t0: "0 \<le> frames_to_time p sr" by (simp add: frames_to_time_def)
  have td: "frames_to_time p sr \<le> ?d"
    using accepted_peak_frame [OF o(4,5)] sr by (rule peak_time_le_duration)
  show ?thesis
    unfolding o(6) using d t0 td by (simp add: make_highlight_def Let_def)
qed

theorem highlight_bounds_witness:
  "highlights (analyze_audio example_load example_track) = Some [example_highlight] \<and>
   example_highlight \<in> set [example_highlight] \<and>
   duration (analyze_audio example_load example_track) = Some (16384 / 44100) \<and>
   0 \<le> start example_highlight \<and>
   start example_highlight \<le> peak_time example_highlight \<and>
   peak_time example_highlight \<le> end_s example_highlight \<and>
   end_s example_highlight \<le> 16384 / 44100 \<and>
   end_s example_highlight - start example_highlight \<le> 20"
proof -
  have hs: "highlights (analyze_audio example_load example_track) = Some [example_highlight]"
    by (simp add: analyze_audio_example)
  have mem: "example_highlight \<in> set [example_highlight]" by simp
  have d: "duration (analyze_audio example_load example_track) = Some (16384 / 44100)"
    by (simp add: analyze_audio_example)
  from highlight_bounds [OF hs mem] d hs mem show ?thesis by auto
qed

section \<open>Properties of the audio operations\<close>

lemma getitem_slice_nonneg:
  assumes "0 \<le> first" and "0 \<le> stop"
  shows "getitem_slice a first stop =
           Some (take (nat (min stop (int (length a))) - nat (min first (int (length a))))
                      (drop (nat (min first (int (length a)))) a))"
proof -
  define f where "f = min first (int (length a))"
  define s where "s = min stop (int (length a))"
  have f: "0 \<le> f" "f \<le> int (length a)" and s: "0 \<le> s" "s \<le> int (length a)"
    using assms by (simp_all add: f_def s_def)
  have pf: "parse_position a f = f" and ps: "parse_position a s = s"
    using f s by (simp_all add: parse_position_def)
  have if': "py_index (length a) f = nat f" and is': "py_index (length a) s = nat s"
    using f s by (simp_all add: py_index_def)
  have data: "py_slice a f s = take (nat s - nat f) (drop (nat f) a)"
    by (simp add: py_slice_def if' is' Let_def)
  have len: "int (length (py_slice a f s)) = (if f \<le> s then s - f else 0)"
    unfolding data using f s by auto
  have "fetch_frames a f s = Some (py_slice a f s)"
  proof (cases "f \<le> s")
    case True
    with len show ?thesis by (simp add: fetch_frames_def Let_def)
  next
    case False
    with len have "s - f - int (length (py_slice a f s)) < 0" by simp
    then show ?thesis by (simp add: fetch_frames_def Let_def)
  qed
  then show ?thesis
    unfolding getitem_slice_def Let_def f_def [symmetric] s_def [symmetric] pf ps data .
qed

lemma getitem_slice_inside:
  assumes "0 \<le> first" and "first \<le> stop" and "stop \<le> int (length a)"
  shows "getitem_slice a first stop = Some (take (nat stop - nat first) (drop (nat first) a))"
proof -
  have "min stop (int (length a)) = stop" "min first (int (length a)) = first"
    using assms by simp_all
  with getitem_slice_nonneg [of first stop a] assms show ?thesis by simp
qed

lemma getitem_ms_inside:
  assumes "0 \<le> ms" and "ms < int (length a)"
  shows "getitem_ms a ms = Some [a ! nat ms]"
proof -
  have p: "parse_position a ms = ms" "parse_position a (ms + 1) = ms + 1"
    using assms by (simp_all add: parse_position_def)
  have i: "py_index (length a) ms = nat ms" "py_index (length a) (ms + 1) = nat ms + 1"
    using assms by (auto simp: py_index_def)
  have lt: "nat ms < length a" using assms by simp
  have "py_slice a ms (ms + 1) = take 1 (drop (nat ms) a)"
    by (simp add: py_slice_def i Let_def)
  also have "\<dots> = [a ! nat ms]"
    using lt by (simp add: take_Suc_conv_app_nth [where i = 0] hd_drop_conv_nth take_Suc)
  finally have d: "py_slice a ms (ms + 1) = [a ! nat ms]" .
  show ?thesis by (simp add: getitem_ms_def p fetch_frames_def d)
qed

lemma those_map_Some: "those (map (\<lambda>i. Some (f i)) xs) = Some (map f xs)"
  by (induction xs) simp_all

text \<open>A fade that lies inside the segment keeps every frame in its place.\<close>

lemma fade_inside:
  assumes "0 \<le> first" and "first + int dur \<le> int (length a)"
    and "stop = first + int dur"
  shows "\<exists>b. fade a to_gain from_gain first stop dur = Some b \<and> length b = length a"
proof -
  let ?fp = "db_to_float from_gain"
  let ?step = "(db_to_float to_gain - ?fp) / real dur"
  have before: "getitem_slice a 0 first = Some (take (nat first) a)"
    using getitem_slice_inside [of 0 first a] assms by simp
  have after: "getitem_slice a stop (int (length a)) = Some (drop (nat stop) a)"
    using getitem_slice_inside [of stop "int (length a)" a] assms by simp
  have "map (\<lambda>i. map_option (map (\<lambda>v. v * (?fp + ?step * real i))) (getitem_ms a (first + int i)))
            [0..<dur]
      = map (\<lambda>i. Some [a ! nat (first + int i) * (?fp + ?step * real i)]) [0..<dur]"
  proof (rule map_cong [OF refl])
    fix i assume "i \<in> set [0..<dur]"
    then have "0 \<le> first + int i" "first + int i < int (length a)" using assms by auto
    then show "map_option (map (\<lambda>v. v * (?fp + ?step * real i))) (getitem_ms a (first + int i))
        = Some [a ! nat (first + int i) * (?fp + ?step * real i)]"
      by (simp add: getitem_ms_inside)
  qed
  then have chunks: "those (map (\<lambda>i. map_option (map (\<lambda>v. v * (?fp + ?step * real i)))
                                   (getitem_ms a (first + int i))) [0..<dur])
      = Some (map (\<lambda>i. [a ! nat (first + int i) * (?fp + ?step * real i)]) [0..<dur])"
    by (simp only: those_map_Some)
  have lc: "length (concat (map (\<lambda>i. [a ! nat (first + int i) * (?fp + ?step * real i)])
                                [0..<dur])) = dur"
    by (simp add: length_concat comp_def sum_list_triv)
  have eq: "fade a to_gain from_gain first stop dur =
      Some (map (\<lambda>v. v * ?fp) (take (nat first) a)
            @ concat (map (\<lambda>i. [a ! nat (first + int i) * (?fp + ?step * real i)]) [0..<dur])
            @ map (\<lambda>v. v * db_to_float to_gain) (drop (nat stop) a))"
    unfolding fade_def Let_def before chunks after by simp
  have "nat first + dur + (length a - nat stop) = length a"
    using assms by (simp add: nat_add_distrib)
  then show ?thesis unfolding eq using lc assms(1,2) by (simp add: min_absorb2)
qed

lemma fade_in_length:
  assumes "dur \<le> length a"
  shows "\<exists>b. fade_in dur a = Some b \<and> length b = length a"
  unfolding fade_in_def by (rule fade_inside) (use assms in simp_all)

lemma fade_out_length:
  assumes "dur \<le> length a"
  shows "\<exists>b. fade_out dur a = Some b \<and> length b = length a"
  unfolding fade_out_def by (rule fade_inside) (use assms in simp_all)

text \<open>
  \<open>overlay\<close> at a position that is not negative returns a segment of the length of the
  first one; at or beyond its end it returns the first segment unchanged. On the empty
  segment a position below \<open>-2\<close> raises.
\<close>

lemma overlay_length:
  assumes "0 \<le> position"
  shows "\<exists>b. overlay seg1 seg2 position = Some b \<and> length b = length seg1"
proof -
  let ?L = "int (length seg1)"
  define p where "p = nat (min position ?L)"
  have p: "p \<le> length seg1" using assms by (simp add: p_def)
  have before: "getitem_slice seg1 0 position = Some (take p seg1)"
    using getitem_slice_nonneg [of 0 position seg1] assms by (simp add: p_def)
  have rest: "getitem_slice seg1 position ?L = Some (drop p seg1)"
    using getitem_slice_nonneg [of position ?L seg1] assms by (simp add: p_def)
  show ?thesis
    unfolding overlay_def before rest using p by (auto simp: Let_def min_def)
qed

lemma overlay_beyond:
  assumes "int (length seg1) \<le> position"
  shows "overlay seg1 seg2 position = Some seg1"
proof -
  let ?L = "int (length seg1)"
  have pos: "0 \<le> position" using assms by simp
  have m: "min position ?L = ?L" using assms by simp
  have before: "getitem_slice seg1 0 position = Some seg1"
    using getitem_slice_nonneg [of 0 position seg1] pos by (simp add: m)
  have rest: "getitem_slice seg1 position ?L = Some []"
    using getitem_slice_nonneg [of position ?L seg1] pos by (simp add: m)
  show ?thesis unfolding overlay_def before rest by simp
qed

lemma overlay_empty_raises:
  assumes "position < - 2"
  shows "overlay [] seg2 position = None"
proof -
  have "getitem_slice [] 0 position = Some []"
    using assms by (simp add: getitem_slice_def fetch_frames_def parse_position_def
        py_slice_def py_index_def Let_def)
  moreover have "getitem_slice [] position (int (length ([]::real list))) = None"
    using assms by (simp add: getitem_slice_def fetch_frames_def parse_position_def
        py_slice_def py_index_def Let_def)
  ultimately show ?thesis by (simp add: overlay_def)
qed

section \<open>Properties of the assembly loop\<close>

text \<open>The fallback excerpt: 30 seconds around the middle, or the whole track.\<close>

lemma select_segment_fallback:
  assumes "highlights t = None \<or> highlights t = Some []"
  shows "select_segment t audio =
           Some (take (min (length audio) 30000) (drop (length audio div 2 - 15000) audio))"
proof -
  let ?L = "int (length audio)"
  define first where "first = max 0 (?L div 2 - 15000)"
  define stop where "stop = min ?L (?L div 2 + 15000)"
  have sel: "select_segment t audio = getitem_slice audio first stop"
    using assms by (auto simp: select_segment_def Let_def first_def stop_def)
  have b: "0 \<le> first" "first \<le> stop" "stop \<le> ?L"
    unfolding first_def stop_def by auto
  have n1: "nat first = length audio div 2 - 15000"
    unfolding first_def by (simp add: nat_diff_distrib' zdiv_int nat_div_distrib) arith?
  have n2: "nat stop - nat first = min (length audio) 30000"
    unfolding first_def stop_def by (simp add: min_def max_def) arith?
  have "take (nat stop - nat first) (drop (nat first) audio) =
      take (min (length audio) 30000) (drop (length audio div 2 - 15000) audio)"
    by (simp only: n2) (simp only: n1)
  then show ?thesis unfolding sel getitem_slice_inside [OF b] by simp
qed

lemma select_segment_fallback_length:
  assumes "highlights t = None \<or> highlights t = Some []"
  shows "\<exists>seg. select_segment t audio = Some seg \<and> length seg = min (length audio) 30000"
proof -
  have "min (length audio) 30000 \<le> length audio - (length audio div 2 - 15000)"
    by (simp add: min_def) arith?
  then show ?thesis
    unfolding select_segment_fallback [OF assms] by (simp add: min_absorb1)
qed

text \<open>The excerpt of a track with a highlight that lies inside the decoded audio.\<close>

lemma select_segment_highlight:
  assumes "highlights t = Some (h # rest)"
    and "0 \<le> py_int (start h * 1000)"
    and "py_int (start h * 1000) \<le> py_int (end_s h * 1000)"
    and "py_int (end_s h * 1000) \<le> int (length audio)"
  shows "select_segment t audio =
           Some (take (nat (py_int (end_s h * 1000)) - nat (py_int (start h * 1000)))
                      (drop (nat (py_int (start h * 1000))) audio))"
proof -
  have m: "min (py_int (end_s h * 1000)) (int (length audio)) = py_int (end_s h * 1000)"
    using assms(4) by simp
  have "select_segment t audio =
      getitem_slice audio (py_int (start h * 1000)) (py_int (end_s h * 1000))"
    by (simp add: select_segment_def assms(1) Let_def m)
  then show ?thesis
    using getitem_slice_inside [OF assms(2,3,4)] by simp
qed

text \<open>A track without an existing local path leaves the state as it is.\<close>

lemma process_track_skip:
  assumes "local_path t = None \<or> local_path t = Some [] \<or>
           (\<exists>p. local_path t = Some p \<and> \<not> path_exists w p)"
  shows "process_track w i t st = st"
  using assms by (auto simp: process_track_def split: prod.splits option.splits)

text \<open>
  After a first track that did not contribute, the buffer is empty and the cursor is 0:
  every later track is then overlaid at position \<open>-2000\<close> of the empty buffer, which
  raises, so it is skipped as well.
\<close>

lemma process_track_empty_later:
  assumes "0 < i"
  shows "process_track w i t ([], 0) = ([], 0)"
proof -
  have "overlay [] seg (0 - 2000) = None" for seg
    by (rule overlay_empty_raises) simp
  then show ?thesis
    using assms by (auto simp: process_track_def split: option.splits)
qed

lemma assemble_loop_empty_later:
  assumes "0 < i"
  shows "assemble_loop w i ts ([], 0) = ([], 0)"
  using assms
proof (induction ts arbitrary: i)
  case Nil
  then show ?case by simp
next
  case (Cons t ts)
  then show ?case by (simp add: process_track_empty_later)
qed

text \<open>A readable first track with an excerpt of at least two seconds is appended.\<close>

lemma process_track_first:
  assumes "local_path t = Some path" and "path \<noteq> []" and "path_exists w path"
    and "from_file w path = Some audio" and "select_segment t audio = Some seg"
    and "2000 \<le> length seg"
  shows "\<exists>segment. length segment = length seg \<and>
           process_track w 0 t (final_mix, cur) = (final_mix @ segment, cur + int (length seg))"
proof -
  from fade_in_length [OF assms(6)] obtain s1 where
    s1: "fade_in 2000 seg = Some s1" "length s1 = length seg" by blast
  from assms(6) s1(2) have "2000 \<le> length s1" by simp
  from fade_out_length [OF this] obtain s2 where
    s2: "fade_out 2000 s1 = Some s2" "length s2 = length s1" by blast
  have "process_track w 0 t (final_mix, cur) = (final_mix @ s2, cur + int (length s2))"
    using assms(1-5) s1(1) s2(1) by (simp add: process_track_def)
  with s1(2) s2(2) show ?thesis by auto
qed

text \<open>
  A readable later track is overlaid two seconds before the cursor; the cursor advances
  by the excerpt length minus two seconds, and the buffer keeps its length. If the
  overlay position is at or beyond the end of the buffer, the buffer is unchanged.
\<close>

lemma process_track_later:
  assumes "0 < i"
    and "local_path t = Some path" and "path \<noteq> []" and "path_exists w path"
    and "from_file w path = Some audio" and "select_segment t audio = Some seg"
    and "2000 \<le> length seg" and "2000 \<le> cur"
  shows "\<exists>final_mix'. length final_mix' = length final_mix \<and>
           (int (length final_mix) \<le> cur - 2000 \<longrightarrow> final_mix' = final_mix) \<and>
           process_track w i t (final_mix, cur) =
             (final_mix', cur + (int (length seg) - 2000))"
proof -
  from fade_in_length [OF assms(7)] obtain s1 where
    s1: "fade_in 2000 seg = Some s1" "length s1 = length seg" by blast
  from assms(7) s1(2) have "2000 \<le> length s1" by simp
  from fade_out_length [OF this] obtain s2 where
    s2: "fade_out 2000 s1 = Some s2" "length s2 = length s1" by blast
  have pos: "0 \<le> cur - 2000" using assms(8) by simp
  from overlay_length [OF pos] obtain fm where
    fm: "overlay final_mix s2 (cur - 2000) = Some fm" "length fm = length final_mix" by blast
  have same: "fm = final_mix" if "int (length final_mix) \<le> cur - 2000"
    using overlay_beyond [OF that, of s2] fm(1) by simp
  have "process_track w i t (final_mix, cur) = (fm, cur + (int (length s2) - 2000))"
    using assms(1-6) s1(1) s2(1) fm(1) by (simp add: process_track_def)
  with s1(2) s2(2) fm(2) same show ?thesis by auto
qed

section \<open>Worked assemblies\<close>

lemma mean_intensity_examples:
  "mean_intensity loud_track = 1 / 2" "mean_intensity quiet_track = 2 / 5"
  "mean_intensity plain_track = 0" "mean_intensity gone_track = 9 / 10"
  by (simp_all add: mean_intensity_def np_mean_def loud_track_def quiet_track_def
      plain_track_def gone_track_def)

lemma sort_tracks_examples:
  "sort_tracks [loud_track, quiet_track] = [loud_track, quiet_track]"
  "sort_tracks [loud_track, quiet_track, plain_track] = [loud_track, quiet_track, plain_track]"
  "sort_tracks [gone_track, loud_track, quiet_track] = [gone_track, loud_track, quiet_track]"
  by (simp_all add: sort_tracks_def mean_intensity_examples)

lemma py_int_examples: "py_int 20000 = 20000" "py_int 40000 = 40000"
  by (simp_all add: py_int_def)

lemma select_segment_examples:
  "select_segment loud_track (replicate 60000 (1 / 2)) = Some (replicate 20000 (1 / 2))"
  "select_segment quiet_track (replicate 60000 (1 / 2)) = Some (replicate 20000 (1 / 2))"
  "select_segment plain_track (replicate 60000 (1 / 2)) = Some (replicate 30000 (1 / 2))"
proof -
  show "select_segment loud_track (replicate 60000 (1 / 2)) = Some (replicate 20000 (1 / 2))"
    by (subst select_segment_highlight
          [of _ "\<lparr> start = 20, end_s = 40, peak_time = 30, intensity = 1 / 2 \<rparr>" "[]"])
       (simp_all add: loud_track_def py_int_examples)
  show "select_segment quiet_track (replicate 60000 (1 / 2)) = Some (replicate 20000 (1 / 2))"
    by (subst select_segment_highlight
          [of _ "\<lparr> start = 20, end_s = 40, peak_time = 30, intensity = 2 / 5 \<rparr>" "[]"])
       (simp_all add: quiet_track_def py_int_examples)
  show "select_segment plain_track (replicate 60000 (1 / 2)) = Some (replicate 30000 (1 / 2))"
    by (subst select_segment_fallback) (simp_all add: plain_track_def)
qed

text \<open>The loop on the two tracks with highlights.\<close>

lemma assemble_two:
  "\<exists>final_mix. length final_mix = 20000 \<and>
     assemble mix_world [loud_track, quiet_track] = (final_mix, 38000)"
proof -
  have r1: "local_path loud_track = Some ''/tmp/autodj/a.mp3''"
    "path_exists mix_world ''/tmp/autodj/a.mp3''"
    "from_file mix_world ''/tmp/autodj/a.mp3'' = Some (replicate 60000 (1 / 2))"
    by (simp_all add: loud_track_def mix_world_def)
  have r2: "local_path quiet_track = Some ''/tmp/autodj/b.mp3''"
    "path_exists mix_world ''/tmp/autodj/b.mp3''"
    "from_file mix_world ''/tmp/autodj/b.mp3'' = Some (replicate 60000 (1 / 2))"
    by (simp_all add: quiet_track_def mix_world_def)
  from process_track_first [OF r1(1) _ r1(2,3) select_segment_examples(1), of "[]" 0]
  obtain s where s: "length s = 20000"
    "process_track mix_world 0 loud_track ([], 0) = (s, 20000)"
    by auto
  from process_track_later [OF _ r2(1) _ r2(2,3) select_segment_examples(2), of "Suc 0" 20000 s]
  obtain fm where fm: "length fm = length s"
    "process_track mix_world (Suc 0) quiet_track (s, 20000) = (fm, 38000)"
    by auto
  have "assemble mix_world [loud_track, quiet_track] = (fm, 38000)"
    by (simp add: assemble_def sort_tracks_examples s(2) fm(2))
  with fm(1) s(1) show ?thesis by simp
qed

lemma create_mix_ok:
  assumes "export_succeeds w" and "db_update_succeeds w"
  shows "create_mix w m tracks = (completed_mix m (fst (assemble w tracks)), False)"
  using assms by (simp add: create_mix_def mix_history_def Let_def)

text \<open>
  Claim C1, evaluated on the code. Two readable tracks contribute an excerpt of 20
  seconds each. The cursor ends at 38 seconds, the sum minus the overlap, but the buffer
  keeps the length of the first excerpt, because \<open>overlay\<close> never extends the segment it
  is applied to: the recorded duration of the mix is 20 seconds, not 38.
\<close>

theorem crossfade_duration_example:
  "select_segment loud_track (replicate 60000 (1 / 2)) = Some (replicate 20000 (1 / 2)) \<and>
   select_segment quiet_track (replicate 60000 (1 / 2)) = Some (replicate 20000 (1 / 2)) \<and>
   length (fst (assemble mix_world [loud_track, quiet_track])) = 20000 \<and>
   snd (assemble mix_world [loud_track, quiet_track]) = 38000 \<and>
   mix_duration (fst (create_mix mix_world (example_mix [loud_track, quiet_track])
                        [loud_track, quiet_track])) = Some 20"
proof -
  from assemble_two obtain fm where fm: "length fm = 20000"
    "assemble mix_world [loud_track, quiet_track] = (fm, 38000)" by blast
  have ok: "export_succeeds mix_world" "db_update_succeeds mix_world"
    by (simp_all add: mix_world_def)
  show ?thesis
    by (simp add: select_segment_examples fm create_mix_ok [OF ok] completed_mix_def)
qed

text \<open>
  Claim C2, evaluated on the code. Of three tracks the one that sorts first has a local
  path that does not exist. It is skipped, and every later track is then overlaid on the
  empty buffer, which raises and skips it too: the outcome is \<open>completed\<close>, but the buffer
  is empty and holds nothing of the two readable tracks.
\<close>

theorem skipped_first_track_example:
  "\<not> path_exists mix_world ''/tmp/autodj/gone.mp3'' \<and>
   sort_tracks [gone_track, loud_track, quiet_track] = [gone_track, loud_track, quiet_track] \<and>
   assemble mix_world [gone_track, loud_track, quiet_track] = ([], 0) \<and>
   status (fst (create_mix mix_world (example_mix [gone_track, loud_track, quiet_track])
                  [gone_track, loud_track, quiet_track])) = Completed \<and>
   mix_duration (fst (create_mix mix_world (example_mix [gone_track, loud_track, quiet_track])
                        [gone_track, loud_track, quiet_track])) = Some 0"
proof -
  have gone: "\<not> path_exists mix_world ''/tmp/autodj/gone.mp3''"
    by (simp add: mix_world_def)
  have "process_track mix_world 0 gone_track ([], 0) = ([], 0)"
    by (rule process_track_skip) (simp add: gone_track_def gone)
  then have asm: "assemble mix_world [gone_track, loud_track, quiet_track] = ([], 0)"
    by (simp add: assemble_def sort_tracks_examples assemble_loop_empty_later
        process_track_empty_later)
  have ok: "export_succeeds mix_world" "db_update_succeeds mix_world"
    by (simp_all add: mix_world_def)
  show ?thesis
    by (simp add: gone sort_tracks_examples asm create_mix_ok [OF ok] completed_mix_def)
qed

text \<open>
  Claim C8, evaluated on the code. A readable track without highlights is given the 30
  second excerpt around its middle, but when it follows two tracks with highlights its
  overlay position (36 seconds) lies beyond the end of the 20 second buffer: the buffer
  is the same as without the track.
\<close>

theorem fallback_excerpt_example:
  "highlights plain_track = Some [] \<and>
   select_segment plain_track (replicate 60000 (1 / 2)) = Some (replicate 30000 (1 / 2)) \<and>
   sort_tracks [loud_track, quiet_track, plain_track] = [loud_track, quiet_track, plain_track] \<and>
   fst (assemble mix_world [loud_track, quiet_track, plain_track]) =
     fst (assemble mix_world [loud_track, quiet_track]) \<and>
   length (fst (assemble mix_world [loud_track, quiet_track, plain_track])) = 20000"
proof -
  from assemble_two obtain fm where fm: "length fm = 20000"
    "assemble mix_world [loud_track, quiet_track] = (fm, 38000)" by blast
  have r3: "local_path plain_track = Some ''/tmp/autodj/c.mp3''"
    "path_exists mix_world ''/tmp/autodj/c.mp3''"
    "from_file mix_world ''/tmp/autodj/c.mp3'' = Some (replicate 60000 (1 / 2))"
    by (simp_all add: plain_track_def mix_world_def)
  from process_track_later [OF _ r3(1) _ r3(2,3) select_segment_examples(3),
      of "Suc (Suc 0)" 38000 fm] fm(1)
  have p3: "process_track mix_world (Suc (Suc 0)) plain_track (fm, 38000) = (fm, 66000)"
    by auto
  have "assemble mix_world [loud_track, quiet_track, plain_track] =
      process_track mix_world (Suc (Suc 0)) plain_track
        (assemble mix_world [loud_track, quiet_track])"
    by (simp add: assemble_def sort_tracks_examples)
  then have "assemble mix_world [loud_track, quiet_track, plain_track] = (fm, 66000)"
    by (simp only: fm(2) p3)
  moreover have "highlights plain_track = Some []" by (simp add: plain_track_def)
  ultimately show ?thesis
    by (simp add: fm select_segment_examples sort_tracks_examples)
qed

section \<open>Lifecycle of a mix\<close>

text \<open>
  Claim C3 as stated fails: the mix built by the endpoint starts in \<open>processing\<close>, and
  \<open>pending\<close> is not among the statuses it takes.
\<close>

theorem mix_pending_counterexample:
  "status (example_mix [loud_track, quiet_track]) = Processing \<and>
   status (example_mix [loud_track, quiet_track]) \<noteq> Pending \<and>
   map status (mix_history mix_world (example_mix [loud_track, quiet_track])
                 [loud_track, quiet_track]) = [Processing, Completed]"
  by (simp add: example_mix_def endpoint_mix_def new_mix_def mix_history_def mix_world_def
      completed_mix_def Let_def)

text \<open>
  Not covered by the amended claim below: when the export succeeds and the database
  update raises, the handler overwrites \<open>completed\<close> with \<open>failed\<close> on a mix whose file
  path and duration are already set.
\<close>

lemma mix_history_update_fails:
  assumes "export_succeeds w" and "\<not> db_update_succeeds w"
  shows "map status (mix_history w (endpoint_mix new_id t g tracks) tracks)
           = [Processing, Completed, Failed]"
    and "file_path (fst (create_mix w (endpoint_mix new_id t g tracks) tracks)) \<noteq> None"
  using assms
  by (simp_all add: endpoint_mix_def new_mix_def mix_history_def create_mix_def
      completed_mix_def Let_def)

text \<open>
  Claim C3, amended. A mix built by the endpoint is in \<open>processing\<close> from its creation,
  with no file path and no duration. When the export and the database update succeed,
  \<open>create_mix\<close> takes it to \<open>completed\<close> in one step and sets its file path and its
  duration; when the export fails it takes it to \<open>failed\<close> in one step and leaves both
  unset.
\<close>

theorem mix_lifecycle:
  "status (endpoint_mix new_id t g tracks) = Processing \<and>
   file_path (endpoint_mix new_id t g tracks) = None \<and>
   mix_duration (endpoint_mix new_id t g tracks) = None \<and>
   (export_succeeds w \<and> db_update_succeeds w \<longrightarrow>
      map status (mix_history w (endpoint_mix new_id t g tracks) tracks)
        = [Processing, Completed] \<and>
      file_path (fst (create_mix w (endpoint_mix new_id t g tracks) tracks)) \<noteq> None \<and>
      mix_duration (fst (create_mix w (endpoint_mix new_id t g tracks) tracks))
        = Some (real (length (fst (assemble w tracks))) / 1000) \<and>
      \<not> snd (create_mix w (endpoint_mix new_id t g tracks) tracks)) \<and>
   (\<not> export_succeeds w \<longrightarrow>
      map status (mix_history w (endpoint_mix new_id t g tracks) tracks)
        = [Processing, Failed] \<and>
      file_path (fst (create_mix w (endpoint_mix new_id t g tracks) tracks)) = None \<and>
      mix_duration (fst (create_mix w (endpoint_mix new_id t g tracks) tracks)) = None \<and>
      snd (create_mix w (endpoint_mix new_id t g tracks) tracks))"
  by (simp add: endpoint_mix_def new_mix_def mix_history_def create_mix_def completed_mix_def
      Let_def)

theorem mix_lifecycle_witness:
  "export_succeeds mix_world \<and> db_update_succeeds mix_world \<and>
   map status (mix_history mix_world
       (endpoint_mix ''m1'' ''Automated DJ Mix'' ''House'' [loud_track, quiet_track])
       [loud_track, quiet_track]) = [Processing, Completed] \<and>
   \<not> export_succeeds (mix_world\<lparr> export_succeeds := False \<rparr>) \<and>
   map status (mix_history (mix_world\<lparr> export_succeeds := False \<rparr>)
       (endpoint_mix ''m1'' ''Automated DJ Mix'' ''House'' [loud_track, quiet_track])
       [loud_track, quiet_track]) = [Processing, Failed]"
proof -
  have ok: "export_succeeds mix_world \<and> db_update_succeeds mix_world"
    by (simp add: mix_world_def)
  have ko: "\<not> export_succeeds (mix_world\<lparr> export_succeeds := False \<rparr>)" by simp
  from mix_lifecycle [of "''m1''" "''Automated DJ Mix''" "''House''"
      "[loud_track, quiet_track]" mix_world] ok
  have a: "map status (mix_history mix_world
       (endpoint_mix ''m1'' ''Automated DJ Mix'' ''House'' [loud_track, quiet_track])
       [loud_track, quiet_track]) = [Processing, Completed]"
    by blast
  from mix_lifecycle [of "''m1''" "''Automated DJ Mix''" "''House''"
      "[loud_track, quiet_track]" "mix_world\<lparr> export_succeeds := False \<rparr>"] ko
  have b: "map status (mix_history (mix_world\<lparr> export_succeeds := False \<rparr>)
       (endpoint_mix ''m1'' ''Automated DJ Mix'' ''House'' [loud_track, quiet_track])
       [loud_track, quiet_track]) = [Processing, Failed]"
    by blast
  from ok ko a b show ?thesis by simp
qed

end
